theory Spec2Isabelle
  imports Main "HOL-Library.Sublist"
begin

section \<open>Python values used by all three pipelines\<close>

text \<open>
  Strings are lists of characters. The exceptions that the scripts can raise are values
  of one datatype; a function that can raise returns \<open>error + 'a\<close>, with \<open>Inl\<close> for the
  exception. A ValueError carries its message, which one of the scripts prints; an
  exception class that derives from ValueError is a ValueError here, as it is for
  \<open>except ValueError\<close>.
\<close>

datatype error =
    ValueError string
  | TypeError
  | IndexError
  | KeyError
  | AttributeError
  | HTTPError
  | ConnectionError
  | OSError

text \<open>\<open>sub in s\<close> on Python strings: \<open>sub\<close> occurs in \<open>s\<close> as a contiguous block.\<close>

fun contains :: "string \<Rightarrow> string \<Rightarrow> bool" where
  "contains [] sub = (sub = [])"
| "contains (c # cs) sub = (prefix sub (c # cs) \<or> contains cs sub)"

text \<open>\<open>s.split(sep)\<close> for a one-character separator: never empty, keeps empty pieces.\<close>

fun split_on :: "char \<Rightarrow> string \<Rightarrow> string list" where
  "split_on sep [] = [[]]"
| "split_on sep (c # cs) =
     (if c = sep then [] # split_on sep cs
      else (case split_on sep cs of
              [] \<Rightarrow> [[c]]
            | w # ws \<Rightarrow> (c # w) # ws))"

text \<open>
  \<open>s.partition(sep)\<close>, without the middle component: the text before the first
  separator and the text after it (empty when there is no separator).
\<close>

definition partition_on :: "char \<Rightarrow> string \<Rightarrow> string \<times> string" where
  "partition_on sep s = (takeWhile (\<lambda>c. c \<noteq> sep) s, drop 1 (dropWhile (\<lambda>c. c \<noteq> sep) s))"

text \<open>
  \<open>s.strip()\<close>: drops the white space at both ends. A string is the list of the bytes
  of its UTF-8 encoding, and the white space is what \<open>str.isspace\<close> accepts: the
  ASCII characters tab, line feed, vertical tab, form feed, carriage return, 0x1C to
  0x1F and the blank, and the code points U+0085, U+00A0, U+1680, U+2000 to U+200A,
  U+2028, U+2029, U+202F, U+205F and U+3000, each written here as its encoding.
\<close>

definition whitespace :: "string list" where
  "whitespace =
     [[CHR 0x09], [CHR 0x0A], [CHR 0x0B], [CHR 0x0C], [CHR 0x0D],
      [CHR 0x1C], [CHR 0x1D], [CHR 0x1E], [CHR 0x1F], [CHR 0x20],
      [CHR 0xC2, CHR 0x85], [CHR 0xC2, CHR 0xA0], [CHR 0xE1, CHR 0x9A, CHR 0x80],
      [CHR 0xE2, CHR 0x80, CHR 0x80], [CHR 0xE2, CHR 0x80, CHR 0x81],
      [CHR 0xE2, CHR 0x80, CHR 0x82], [CHR 0xE2, CHR 0x80, CHR 0x83],
      [CHR 0xE2, CHR 0x80, CHR 0x84], [CHR 0xE2, CHR 0x80, CHR 0x85],
      [CHR 0xE2, CHR 0x80, CHR 0x86], [CHR 0xE2, CHR 0x80, CHR 0x87],
      [CHR 0xE2, CHR 0x80, CHR 0x88], [CHR 0xE2, CHR 0x80, CHR 0x89],
      [CHR 0xE2, CHR 0x80, CHR 0x8A], [CHR 0xE2, CHR 0x80, CHR 0xA8],
      [CHR 0xE2, CHR 0x80, CHR 0xA9], [CHR 0xE2, CHR 0x80, CHR 0xAF],
      [CHR 0xE2, CHR 0x81, CHR 0x9F], [CHR 0xE3, CHR 0x80, CHR 0x80]]"

text \<open>
  \<open>lstrip_with\<close> removes, from the front, every piece that is one of the given
  encodings; \<open>strip\<close> does so at the front and, on the reversed bytes, at the back.
\<close>

function lstrip_with :: "string list \<Rightarrow> string \<Rightarrow> string" where
  "lstrip_with spaces s =
     (case find (\<lambda>sp. sp \<noteq> [] \<and> prefix sp s) spaces of
        None \<Rightarrow> s
      | Some sp \<Rightarrow> lstrip_with spaces (drop (length sp) s))"
  by pat_completeness auto
termination
proof (relation "measure (\<lambda>(spaces, s). length s)")
  show "wf (measure (\<lambda>(spaces, s). length s))" by simp
next
  fix spaces :: "string list" and s sp :: string
  assume "find (\<lambda>sp. sp \<noteq> [] \<and> prefix sp s) spaces = Some sp"
  then have "sp \<noteq> []" and "prefix sp s"
    by (auto simp: find_Some_iff)
  then have "s \<noteq> []" by auto
  with \<open>sp \<noteq> []\<close>
  show "((spaces, drop (length sp) s), (spaces, s)) \<in> measure (\<lambda>(spaces, s). length s)"
    by simp
qed

declare lstrip_with.simps [simp del]

definition strip :: "string \<Rightarrow> string" where
  "strip s = rev (lstrip_with (map rev whitespace) (rev (lstrip_with whitespace s)))"

section \<open>Video segment extractor (extract\_videos.py)\<close>

subsection \<open>The query string of a URL (urllib.parse)\<close>

text \<open>
  \<open>urlparse(url).query\<close>. The library strips leading control characters and blanks,
  deletes every tab, carriage return and line feed, splits off a scheme, then an
  authority after \<open>//\<close>, then the fragment after the first \<open>#\<close>, and the query is what
  follows the first \<open>?\<close> of the rest. The library validates the authority and raises
  ValueError when it rejects it (unbalanced square brackets, a bracketed host that is no
  IPv6 address, characters that normalise to delimiters); that validation is outside
  this repository and is the parameter \<open>check_netloc\<close>, which gives the message of the
  ValueError, or None when the library accepts the authority.
\<close>

definition scheme_chars :: string where
  "scheme_chars =
     ''abcdefghijklmnopqrstuvwxyzABCDEFGHIJKLMNOPQRSTUVWXYZ0123456789+-.''"

definition ascii_alpha :: "char \<Rightarrow> bool" where
  "ascii_alpha c = (c \<in> set ''abcdefghijklmnopqrstuvwxyzABCDEFGHIJKLMNOPQRSTUVWXYZ'')"

definition c0_control_or_space :: "char \<Rightarrow> bool" where
  "c0_control_or_space c = ((of_char c :: nat) \<le> 32)"

definition unsafe_url_byte :: "char \<Rightarrow> bool" where
  "unsafe_url_byte c = (c \<in> set [CHR 0x09, CHR 0x0D, CHR 0x0A])"

definition split_scheme :: "string \<Rightarrow> string" where
  "split_scheme url =
     (let pre = takeWhile (\<lambda>c. c \<noteq> CHR '':'') url in
      if CHR '':'' \<in> set url \<and> pre \<noteq> [] \<and> ascii_alpha (hd pre)
         \<and> (\<forall>c \<in> set pre. c \<in> set scheme_chars)
      then drop (length pre + 1) url
      else url)"

definition netloc_delim :: "char \<Rightarrow> bool" where
  "netloc_delim c = (c \<in> set ''/?#'')"

definition urlparse_query :: "(string \<Rightarrow> string option) \<Rightarrow> string \<Rightarrow> error + string" where
  "urlparse_query check_netloc url =
     (let u1 = dropWhile c0_control_or_space url;
          u2 = filter (\<lambda>c. \<not> unsafe_url_byte c) u1;
          u3 = split_scheme u2;
          has_netloc = (take 2 u3 = ''//'');
          netloc = (if has_netloc then takeWhile (\<lambda>c. \<not> netloc_delim c) (drop 2 u3) else []);
          u4 = (if has_netloc then dropWhile (\<lambda>c. \<not> netloc_delim c) (drop 2 u3) else u3);
          u5 = takeWhile (\<lambda>c. c \<noteq> CHR ''#'') u4
      in case (if netloc = [] then None else check_netloc netloc) of
           Some msg \<Rightarrow> Inl (ValueError msg)
         | None \<Rightarrow> Inr (snd (partition_on CHR ''?'' u5)))"

subsection \<open>Query parameters (urllib.parse.parse\_qs)\<close>

text \<open>
  Percent-decoding, on the bytes of the string: the text is split at \<open>%\<close>; a piece that
  starts with two hexadecimal digits contributes that byte and its remainder, any other
  piece keeps its \<open>%\<close>. \<open>unquote_plus\<close> first turns every \<open>+\<close> into a blank.
\<close>

definition hexval :: "char \<Rightarrow> nat option" where
  "hexval c =
     (let n = (of_char c :: nat) in
      if 48 \<le> n \<and> n \<le> 57 then Some (n - 48)
      else if 65 \<le> n \<and> n \<le> 70 then Some (n - 55)
      else if 97 \<le> n \<and> n \<le> 102 then Some (n - 87)
      else None)"

fun unquote_item :: "string \<Rightarrow> string" where
  "unquote_item (a # b # rest) =
     (case (hexval a, hexval b) of
        (Some x, Some y) \<Rightarrow> char_of (16 * x + y) # rest
      | _ \<Rightarrow> CHR ''%'' # a # b # rest)"
| "unquote_item item = CHR ''%'' # item"

definition unquote :: "string \<Rightarrow> string" where
  "unquote s =
     (case split_on CHR ''%'' s of
        [] \<Rightarrow> s
      | b # bits \<Rightarrow> b @ concat (map unquote_item bits))"

definition unquote_plus :: "string \<Rightarrow> string" where
  "unquote_plus s = unquote (map (\<lambda>c. if c = CHR ''+'' then CHR '' '' else c) s)"

text \<open>
  \<open>parse_qsl\<close> with the default arguments: fields are separated by \<open>&\<close>; an empty field
  and a field with an empty value are dropped; name and value are decoded.
\<close>

definition parse_qsl :: "string \<Rightarrow> (string \<times> string) list" where
  "parse_qsl qs =
     (if qs = [] then []
      else concat (map (\<lambda>name_value.
             (let (name, val) = partition_on CHR ''='' name_value in
              if name_value \<noteq> [] \<and> val \<noteq> []
              then [(unquote_plus name, unquote_plus val)]
              else []))
           (split_on CHR ''&'' qs)))"

text \<open>\<open>parse_qs\<close>: the dictionary from each name to the list of its values, in order.\<close>

definition add_pair :: "(string \<rightharpoonup> string list) \<Rightarrow> string \<times> string \<Rightarrow> (string \<rightharpoonup> string list)" where
  "add_pair parsed_result nv =
     (case parsed_result (fst nv) of
        Some vs \<Rightarrow> parsed_result(fst nv \<mapsto> vs @ [snd nv])
      | None \<Rightarrow> parsed_result(fst nv \<mapsto> [snd nv]))"

definition parse_qs :: "string \<Rightarrow> (string \<rightharpoonup> string list)" where
  "parse_qs qs = foldl add_pair Map.empty (parse_qsl qs)"

subsection \<open>Parsing one candidate URL\<close>

record video_info =
  url :: string
  stream_legealdia :: "string option"
  stream_organoa :: "string option"
  stream_data :: "string option"
  stream_name :: "string option"
  start_time :: "string option"
  end_time :: "string option"
  description :: "string option"

text \<open>\<open>params.get(key, [None])[0]\<close>.\<close>

definition get_param :: "(string \<rightharpoonup> string list) \<Rightarrow> string \<Rightarrow> string option" where
  "get_param params key =
     (case params key of
        None \<Rightarrow> None
      | Some [] \<Rightarrow> None
      | Some (v # vs) \<Rightarrow> Some v)"

text \<open>Truth value of an optional string: neither None nor empty.\<close>

definition truthy :: "string option \<Rightarrow> bool" where
  "truthy v = (case v of None \<Rightarrow> False | Some s \<Rightarrow> s \<noteq> [])"

text \<open>
  \<open>XMLVideoExtractor._parse_video_url\<close>. The dictionary it builds has no description
  yet; the field is None until \<open>_extract_video_links\<close> fills it.
\<close>

definition parse_video_url :: "(string \<Rightarrow> string option) \<Rightarrow> string \<Rightarrow> error + video_info option" where
  "parse_video_url check_netloc u =
     (if \<not> contains u ''streamlegealdia'' \<and> \<not> contains u ''streamdbstart'' then Inr None
      else
        (case urlparse_query check_netloc u of
           Inl e \<Rightarrow> Inl e
         | Inr query \<Rightarrow>
             (let params = parse_qs query;
                  info = \<lparr> url = u,
                           stream_legealdia = get_param params ''streamlegealdia'',
                           stream_organoa = get_param params ''streamorganoa'',
                           stream_data = get_param params ''streamdata'',
                           stream_name = get_param params ''streamname'',
                           start_time = get_param params ''streamdbstart'',
                           end_time = get_param params ''streamdbend'',
                           description = None \<rparr>
              in if truthy (start_time info) \<or> truthy (end_time info)
                 then Inr (Some info)
                 else Inr None)))"

subsection \<open>The element tree (xml.etree.ElementTree)\<close>

text \<open>
  An element has a tag, an optional text and its children in order. It holds no
  reference to its parent: what a method of an element can reach is its own subtree.
\<close>

datatype element = Element (tag: string) (text_of: "string option") (children: "element list")

text \<open>\<open>element.iter()\<close>: the element and its descendants in document order.\<close>

fun iter :: "element \<Rightarrow> element list" where
  "iter (Element t x cs) = Element t x cs # concat (map iter cs)"

text \<open>
  An element of a subtree is named by its position: the child indices on the way down
  from the root of the subtree. \<open>positions\<close> lists them in document order.
\<close>

fun positions :: "element \<Rightarrow> nat list list"
  and positions_from :: "nat \<Rightarrow> element list \<Rightarrow> nat list list" where
  "positions (Element t x cs) = [] # positions_from 0 cs"
| "positions_from i [] = []"
| "positions_from i (c # cs) = map ((#) i) (positions c) @ positions_from (Suc i) cs"

fun subtree_at :: "element \<Rightarrow> nat list \<Rightarrow> element option" where
  "subtree_at e [] = Some e"
| "subtree_at e (i # p) =
     (if i < length (children e) then subtree_at (children e ! i) p else None)"

text \<open>
  \<open>ElementPath.get_parent_map\<close>: the library answers \<open>..\<close> from a dictionary that
  it fills by walking the element on which \<open>find\<close> was called,
  \<^verbatim>\<open>for p in context.root.iter(): for e in p: parent_map[e] = p\<close>.
  The pairs are (child, parent), as positions below that element.
\<close>

definition get_parent_map :: "element \<Rightarrow> (nat list \<times> nat list) list" where
  "get_parent_map root =
     concat (map (\<lambda>p. case subtree_at root p of
                          None \<Rightarrow> []
                        | Some e \<Rightarrow> map (\<lambda>i. (p @ [i], p)) [0..<length (children e)])
                 (positions root))"

text \<open>
  \<open>elem.find('..')\<close>: the search starts from the one-element result \<open>[elem]\<close>, which is
  position \<open>[]\<close>, and yields the parent of each result that is a key of the parent map.
\<close>

definition find_parent :: "element \<Rightarrow> element option" where
  "find_parent elem =
     (case map_of (rev (get_parent_map elem)) [] of
        None \<Rightarrow> None
      | Some p \<Rightarrow> subtree_at elem p)"

text \<open>\<open>elem.find('.//tag')\<close>: the first proper descendant with that tag, in document order.\<close>

definition find_descendant :: "string \<Rightarrow> element \<Rightarrow> element option" where
  "find_descendant tg elem =
     (case filter (\<lambda>d. tag d = tg) (concat (map iter (children elem))) of
        [] \<Rightarrow> None
      | d # ds \<Rightarrow> Some d)"

subsection \<open>Description lookup and the traversal\<close>

text \<open>
  \<open>XMLVideoExtractor._get_description\<close>: the loop \<open>for _ in range(5)\<close>, with the number
  of rounds left as first argument.
\<close>

fun get_description_loop :: "nat \<Rightarrow> element \<Rightarrow> string option" where
  "get_description_loop 0 parent = None"
| "get_description_loop (Suc n) parent =
     (case find_parent parent of
        None \<Rightarrow> None
      | Some parent' \<Rightarrow>
          (case find_descendant ''sesiones_pleno_asunto_indice_descripcion'' parent' of
             None \<Rightarrow> get_description_loop n parent'
           | Some desc_elem \<Rightarrow>
               if truthy (text_of desc_elem) then map_option strip (text_of desc_elem)
               else get_description_loop n parent'))"

definition get_description :: "element \<Rightarrow> string option" where
  "get_description element = get_description_loop 5 element"

text \<open>
  \<open>XMLVideoExtractor._extract_video_links\<close>: one round of the loop over \<open>root.iter()\<close>
  gives the videos that the element adds; an exception of \<open>urlparse\<close> is not caught.
\<close>

definition extract_element :: "(string \<Rightarrow> string option) \<Rightarrow> element \<Rightarrow> error + video_info list" where
  "extract_element check_netloc element =
     (if truthy (text_of element) then
        (let t = strip (the (text_of element)) in
         if contains t ''legebiltzarra.eus'' \<and> contains t ''videos'' then
           (case parse_video_url check_netloc t of
              Inl e \<Rightarrow> Inl e
            | Inr None \<Rightarrow> Inr []
            | Inr (Some info) \<Rightarrow> Inr [info\<lparr>description := get_description element\<rparr>])
         else Inr [])
      else Inr [])"

fun extract_loop :: "(string \<Rightarrow> string option) \<Rightarrow> video_info list \<Rightarrow> element list \<Rightarrow> error + video_info list" where
  "extract_loop check_netloc videos [] = Inr videos"
| "extract_loop check_netloc videos (element # rest) =
     (case extract_element check_netloc element of
        Inl e \<Rightarrow> Inl e
      | Inr new \<Rightarrow> extract_loop check_netloc (videos @ new) rest)"

definition extract_video_links :: "(string \<Rightarrow> string option) \<Rightarrow> element \<Rightarrow> error + video_info list" where
  "extract_video_links check_netloc root = extract_loop check_netloc [] (iter root)"

section \<open>The world of the two downloaders\<close>

text \<open>
  The downloaders read and write files, send requests and print. The state they change
  is a record: the file system (a path is a file with its bytes or a directory; paths
  are compared as they are written), the requests sent so far, what \<open>print\<close> was called
  with (by the XML downloader), and
  the metadata store, which \<open>read_json\<close>/\<open>read_feeds\<close> load at the start of a run and
  \<open>write_json\<close>/\<open>write_feeds\<close> replace at its end.
\<close>

datatype node = File string | Dir

datatype request =
    is_PageGet: PageGet string
  | is_FileGet: FileGet string
  | is_FeedGet: FeedGet string

record 's world =
  files :: "string \<rightharpoonup> node"
  requests :: "request list"
  stdout :: "string list"
  store :: 's

text \<open>
  What \<open>requests.get\<close> does is decided outside the program: it raises (no connection,
  a URL that the library refuses, which is a ValueError) or it returns a response with a
  status code and a body. The body of a streamed download may break off after some bytes.
\<close>

datatype 'a reply = Raises error | Reply nat 'a

datatype body = Complete string | Broken string

text \<open>\<open>response.raise_for_status()\<close> raises HTTPError for a status from 400 to 599.\<close>

definition raise_for_status :: "nat \<Rightarrow> bool" where
  "raise_for_status status = (400 \<le> status \<and> status < 600)"

text \<open>
  One cell of a table row, as BeautifulSoup shows it to \<open>download_xml\<close>: the result of
  \<open>get_text(strip=True)\<close>, and the \<open>href\<close> values of the \<open>a\<close> tags below the cell that
  have one, in document order. A row is the list \<open>row.find_all("td")\<close>.
\<close>

record td =
  cell_text :: string
  cell_hrefs :: "string list"

type_synonym row = "td list"

text \<open>One entry of a parsed feed, with the keys that \<open>process_feed\<close> reads.\<close>

record struct_time =
  tm_year :: nat
  tm_mon :: nat
  tm_mday :: nat

record entry =
  enclosures :: "string option list option"
  entry_id :: "string option"
  published_parsed :: "struct_time option"
  title :: "string option"
  itunes_duration :: "string option"
  itunes_season :: "string option"
  itunes_episode :: "string option"

record parsed_feed =
  bozo :: bool
  entries :: "entry list"

text \<open>
  The surroundings of a run. The answer to a request may depend on the address and on
  how many requests were sent before it. \<open>get_page\<close> is \<open>requests.get\<close> for an index page,
  with the rows that \<open>soup.find_all("tr")\<close> finds in the body; \<open>http_get\<close> is
  \<open>requests.get\<close> for a payload; \<open>feedparser_parse\<close> is \<open>feedparser.parse\<close>;
  \<open>can_write\<close> and \<open>can_mkdir\<close> say whether the operating system lets the program create
  that file or directory.
\<close>

record env =
  get_page :: "nat \<Rightarrow> string \<Rightarrow> row list reply"
  http_get :: "nat \<Rightarrow> string \<Rightarrow> body reply"
  feedparser_parse :: "nat \<Rightarrow> string \<Rightarrow> parsed_feed"
  can_write :: "string \<Rightarrow> bool"
  can_mkdir :: "string \<Rightarrow> bool"

text \<open>\<open>os.path.exists\<close>.\<close>

definition exists :: "'s world \<Rightarrow> string \<Rightarrow> bool" where
  "exists w path = (files w path \<noteq> None)"

text \<open>
  \<open>os.makedirs(path, exist_ok=True)\<close>: creates the missing directories from the outermost
  one inwards; fails on a file in the way or on a directory it may not create.
\<close>

definition parents :: "string \<Rightarrow> string list" where
  "parents path =
     filter (\<lambda>q. q \<noteq> [])
       (map (\<lambda>i. take i path) (filter (\<lambda>i. path ! i = CHR ''/'') [0..<length path]))"

fun mkdir_all :: "env \<Rightarrow> string list \<Rightarrow> (string \<rightharpoonup> node) \<Rightarrow> error option \<times> (string \<rightharpoonup> node)" where
  "mkdir_all e [] fs = (None, fs)"
| "mkdir_all e (d # ds) fs =
     (case fs d of
        Some (File c) \<Rightarrow> (Some OSError, fs)
      | Some Dir \<Rightarrow> mkdir_all e ds fs
      | None \<Rightarrow> if can_mkdir e d then mkdir_all e ds (fs(d \<mapsto> Dir)) else (Some OSError, fs))"

definition makedirs :: "env \<Rightarrow> string \<Rightarrow> 's world \<Rightarrow> error option \<times> 's world" where
  "makedirs e path w =
     (if path = [] then (Some OSError, w)
      else (case mkdir_all e (parents path @ [path]) (files w) of
              (r, fs) \<Rightarrow> (r, w\<lparr>files := fs\<rparr>)))"

text \<open>\<open>open(path, "wb")\<close> followed by writing the bytes.\<close>

definition write_file :: "env \<Rightarrow> string \<Rightarrow> string \<Rightarrow> 's world \<Rightarrow> error + 's world" where
  "write_file e path content w =
     (if files w path = Some Dir \<or> \<not> can_write e path then Inl OSError
      else Inr (w\<lparr>files := (files w)(path \<mapsto> File content)\<rparr>))"

text \<open>Decimal digits of a number, as \<open>str\<close> and the f-strings print an integer.\<close>

fun str_nat :: "nat \<Rightarrow> string" where
  "str_nat n =
     (if n < 10 then [char_of (48 + n)]
      else str_nat (n div 10) @ [char_of (48 + n mod 10)])"

declare str_nat.simps [simp del]

definition str_int :: "int \<Rightarrow> string" where
  "str_int i = (if i < 0 then CHR ''-'' # str_nat (nat (- i)) else str_nat (nat i))"

text \<open>
  \<open>int(s)\<close> on a string of ASCII characters: the white space of C around the number
  (blank, tab, line feed, vertical tab, form feed, carriage return) is ignored, a sign
  may come first, and single underscores may separate groups of digits. Digits outside
  ASCII, which \<open>int\<close> reads through the Unicode tables, are not part of the model.
\<close>

definition int_space :: "char \<Rightarrow> bool" where
  "int_space c = (c \<in> set [CHR 0x20, CHR 0x09, CHR 0x0A, CHR 0x0B, CHR 0x0C, CHR 0x0D])"

definition is_digit :: "char \<Rightarrow> bool" where
  "is_digit c = (48 \<le> (of_char c :: nat) \<and> (of_char c :: nat) \<le> 57)"

definition nat_of_digits :: "string \<Rightarrow> nat" where
  "nat_of_digits ds = foldl (\<lambda>a c. 10 * a + ((of_char c :: nat) - 48)) 0 ds"

definition py_int :: "string \<Rightarrow> int option" where
  "py_int s =
     (let t = rev (dropWhile int_space (rev (dropWhile int_space s)));
          negative = (take 1 t = ''-'');
          digits = (if take 1 t = ''-'' \<or> take 1 t = ''+'' then drop 1 t else t);
          groups = split_on CHR ''_'' digits
      in if \<forall>g \<in> set groups. g \<noteq> [] \<and> (\<forall>c \<in> set g. is_digit c)
         then Some (if negative then - int (nat_of_digits (concat groups))
                    else int (nat_of_digits (concat groups)))
         else None)"

section \<open>XML session downloader (parliament/download.py)\<close>

text \<open>
  The records of the store. A key that a group lacks reads as None: \<open>.get\<close> gives
  None for it and a subscript raises KeyError.
\<close>

record xml_info =
  name :: string
  xml_filepath :: string
  xml_url :: string

record xml_metadata =
  html_url :: "string option"
  metadata_name :: "string option"
  xml_info_list :: "xml_info list option"

text \<open>\<open>d.get(key, [])\<close> on a key that holds a list.\<close>

definition get_list :: "'a list option \<Rightarrow> 'a list" where
  "get_list v = (case v of None \<Rightarrow> [] | Some xs \<Rightarrow> xs)"

definition quoted :: "string \<Rightarrow> string" where
  "quoted s = CHR 0x27 # s @ [CHR 0x27]"

text \<open>
  \<open>download_xml\<close>. The three checks raise ValueError before anything is sent; the
  request is recorded when it is sent; \<open>raise_for_status\<close> and a failure of the transfer
  or of the file are not ValueErrors.
\<close>

definition download_xml ::
  "env \<Rightarrow> row \<Rightarrow> string \<Rightarrow> string \<Rightarrow> xml_info list \<Rightarrow> 's world \<Rightarrow> (error + xml_info) \<times> 's world" where
  "download_xml e cells base_url output_dir known w =
     (if length cells < 2 then (Inl (ValueError ''Skipping Malformed rows''), w)
      else if \<exists>x \<in> set known. name x = cell_text (cells ! 0)
      then (Inl (ValueError (''File already downloaded '' @ quoted ''name'' @ '': ''
                               @ quoted (cell_text (cells ! 0)))), w)
      else
        (case cell_hrefs (cells ! 1) of
           [] \<Rightarrow> (Inl (ValueError (quoted ''a_tag'' @ '' not found'')), w)
         | a_href # _ \<Rightarrow>
             (let href = (if \<not> prefix ''http'' a_href then base_url @ a_href else a_href);
                  filepath = output_dir @ ''/'' @ last (split_on CHR ''='' href);
                  w1 = w\<lparr>stdout := stdout w @ [''Downloading '' @ href @ '' ...''],
                         requests := requests w @ [FileGet href]\<rparr>
              in case http_get e (length (requests w)) href of
                   Raises err \<Rightarrow> (Inl err, w1)
                 | Reply status (Broken part) \<Rightarrow> (Inl ConnectionError, w1)
                 | Reply status (Complete content) \<Rightarrow>
                     if raise_for_status status then (Inl HTTPError, w1)
                     else (case write_file e filepath content w1 of
                             Inl err \<Rightarrow> (Inl err, w1)
                           | Inr w2 \<Rightarrow>
                               (Inr \<lparr>name = cell_text (cells ! 0),
                                     xml_filepath = filepath,
                                     xml_url = href\<rparr>, w2)))))"

text \<open>
  The loop over the rows in \<open>main\<close>: a ValueError is printed and the loop goes on; any
  other exception leaves the loop and the function.
\<close>

fun download_rows ::
  "env \<Rightarrow> string \<Rightarrow> string \<Rightarrow> xml_info list \<Rightarrow> row list \<Rightarrow> xml_info list \<Rightarrow> 's world
     \<Rightarrow> (error + xml_info list) \<times> 's world" where
  "download_rows e base_url output_dir known [] new_xml_info_list w = (Inr new_xml_info_list, w)"
| "download_rows e base_url output_dir known (r # rows) new_xml_info_list w =
     (case download_xml e r base_url output_dir known w of
        (Inr info, w') \<Rightarrow>
          download_rows e base_url output_dir known rows (new_xml_info_list @ [info]) w'
      | (Inl (ValueError msg), w') \<Rightarrow>
          download_rows e base_url output_dir known rows new_xml_info_list
            (w'\<lparr>stdout := stdout w' @ [''Caught exception: '' @ msg]\<rparr>)
      | (Inl err, w') \<Rightarrow> (Inl err, w'))"

text \<open>The body of the loop over the groups: the records that this group gains.\<close>

definition py_str :: "string option \<Rightarrow> string" where
  "py_str v = (case v of None \<Rightarrow> ''None'' | Some s \<Rightarrow> s)"

definition process_group ::
  "env \<Rightarrow> string \<Rightarrow> xml_metadata \<Rightarrow> 's world \<Rightarrow> (error + xml_info list) \<times> 's world" where
  "process_group e xml_output_dir xml_metadata w =
     (let output_dir = xml_output_dir @ ''/'' @ py_str (metadata_name xml_metadata) in
      case makedirs e output_dir w of
        (Some err, w1) \<Rightarrow> (Inl err, w1)
      | (None, w1) \<Rightarrow>
          (case html_url xml_metadata of
             None \<Rightarrow> (Inl (ValueError ''Invalid URL''), w1)
           | Some u \<Rightarrow>
               (let w2 = w1\<lparr>requests := requests w1 @ [PageGet u]\<rparr> in
                case get_page e (length (requests w1)) u of
                  Raises err \<Rightarrow> (Inl err, w2)
                | Reply status rows \<Rightarrow>
                    if raise_for_status status then (Inl HTTPError, w2)
                    else if length (split_on CHR ''/'' u) < 3 then (Inl IndexError, w2)
                    else download_rows e (''https://'' @ split_on CHR ''/'' u ! 2) output_dir
                           (get_list (xml_info_list xml_metadata)) rows [] w2)))"

text \<open>
  The loop over the groups: the first component collects \<open>new_xml_metadata_list\<close>, the
  second the groups with their lists updated, which is what \<open>xml_metadata_list\<close> holds
  after the loop.
\<close>

fun process_groups ::
  "env \<Rightarrow> string \<Rightarrow> xml_metadata list \<Rightarrow> 's world
     \<Rightarrow> (error + xml_metadata list \<times> xml_metadata list) \<times> 's world" where
  "process_groups e xml_output_dir [] w = (Inr ([], []), w)"
| "process_groups e xml_output_dir (xml_metadata # rest) w =
     (case process_group e xml_output_dir xml_metadata w of
        (Inl err, w') \<Rightarrow> (Inl err, w')
      | (Inr new_xml_info_list, w') \<Rightarrow>
          (case process_groups e xml_output_dir rest w' of
             (Inl err, w'') \<Rightarrow> (Inl err, w'')
           | (Inr (new_list, updated), w'') \<Rightarrow>
               (Inr (xml_metadata\<lparr>xml_info_list := Some new_xml_info_list\<rparr> # new_list,
                     xml_metadata\<lparr>xml_info_list :=
                        Some (new_xml_info_list @ get_list (xml_info_list xml_metadata))\<rparr>
                       # updated), w'')))"

text \<open>
  \<open>print_xml_summary\<close>: a heading, then one line for each group. The subscripts
  \<open>xml_metadata['name']\<close> and \<open>xml_metadata['xml_info_list']\<close> raise KeyError when the
  group lacks the key.
\<close>

fun print_xml_lines :: "xml_metadata list \<Rightarrow> 's world \<Rightarrow> error option \<times> 's world" where
  "print_xml_lines [] w = (None, w)"
| "print_xml_lines (xml_metadata # rest) w =
     (case metadata_name xml_metadata of
        None \<Rightarrow> (Some KeyError, w)
      | Some nm \<Rightarrow>
          (case xml_info_list xml_metadata of
             None \<Rightarrow> (Some KeyError, w)
           | Some infos \<Rightarrow>
               print_xml_lines rest
                 (w\<lparr>stdout := stdout w
                      @ [''  - '' @ nm @ '': '' @ str_nat (length infos) @ '' files'']\<rparr>)))"

definition print_xml_summary ::
  "xml_metadata list \<Rightarrow> string \<Rightarrow> 's world \<Rightarrow> error option \<times> 's world" where
  "print_xml_summary xml_metadata_list title_text w =
     print_xml_lines xml_metadata_list
       (w\<lparr>stdout := stdout w @ [''- '' @ title_text @ '':'']\<rparr>)"

text \<open>
  \<open>main\<close> of the XML downloader: the store is written once, after the last group; an
  exception before that leaves it as it was. The two summaries are printed after the
  store is written. The result is \<open>new_xml_metadata_list\<close>.
\<close>

definition main_xml ::
  "env \<Rightarrow> string \<Rightarrow> xml_metadata list world \<Rightarrow> (error + xml_metadata list) \<times> xml_metadata list world" where
  "main_xml e xml_output_dir w =
     (case process_groups e xml_output_dir (store w) w of
        (Inl err, w') \<Rightarrow> (Inl err, w')
      | (Inr (new_xml_metadata_list, xml_metadata_list), w') \<Rightarrow>
          (let w1 = w'\<lparr>store := xml_metadata_list\<rparr>;
               w2 = w1\<lparr>stdout := stdout w1 @ [CHR 0x0A # '':::::: XML SUMMARY ::::::'']\<rparr>
           in case print_xml_summary new_xml_metadata_list ''New Data'' w2 of
                (Some err, w3) \<Rightarrow> (Inl err, w3)
              | (None, w3) \<Rightarrow>
                  (case print_xml_summary xml_metadata_list ''Total Data'' w3 of
                     (Some err, w4) \<Rightarrow> (Inl err, w4)
                   | (None, w4) \<Rightarrow> (Inr new_xml_metadata_list, w4))))"

section \<open>Podcast audio downloader (podcast/download\_ivoox\_podcast.py)\<close>

text \<open>
  The records of the store. A key that a feed descriptor lacks reads as None, as
  \<open>feed_info.get\<close> gives it. What this script prints is not part of the model.
\<close>

record audio =
  audio_id :: int
  pub_date :: string
  audio_title :: "string option"
  duration :: "string option"
  audio_filepath :: string
  audio_url :: string

record feed =
  source :: "string option"
  feed_name :: "string option"
  rss_url :: "string option"
  audio_list :: "audio list option"

text \<open>
  \<open>download_file\<close>. The result is None for the bare \<open>return\<close>, and the Boolean
  otherwise. Every exception after the existence test is caught; a transfer that breaks
  off leaves the bytes written so far.
\<close>

definition download_file :: "env \<Rightarrow> string \<Rightarrow> string \<Rightarrow> 's world \<Rightarrow> bool option \<times> 's world" where
  "download_file e u output_path w =
     (if exists w output_path then (None, w)
      else
        (let w1 = w\<lparr>requests := requests w @ [FileGet u]\<rparr> in
         case http_get e (length (requests w)) u of
           Raises err \<Rightarrow> (Some False, w1)
         | Reply status b \<Rightarrow>
             if raise_for_status status then (Some False, w1)
             else (case b of
                     Complete content \<Rightarrow>
                       (case write_file e output_path content w1 of
                          Inl err \<Rightarrow> (Some False, w1)
                        | Inr w2 \<Rightarrow> (Some True, w2))
                   | Broken part \<Rightarrow>
                       (case write_file e output_path part w1 of
                          Inl err \<Rightarrow> (Some False, w1)
                        | Inr w2 \<Rightarrow> (Some False, w2)))))"

text \<open>\<open>os.path.join\<close> on POSIX paths and the last component of \<open>os.path.split\<close>.\<close>

definition path_join2 :: "string \<Rightarrow> string \<Rightarrow> string" where
  "path_join2 a b =
     (if prefix ''/'' b then b
      else if a = [] \<or> last a = CHR ''/'' then a @ b
      else a @ ''/'' @ b)"

definition path_join :: "string \<Rightarrow> string list \<Rightarrow> string" where
  "path_join a ps = foldl path_join2 a ps"

definition path_tail :: "string \<Rightarrow> string" where
  "path_tail p = last (split_on CHR ''/'' p)"

text \<open>\<open>time.strftime("%Y-%m-%d", t)\<close> for the date of a feed entry.\<close>

definition zero_pad :: "nat \<Rightarrow> string \<Rightarrow> string" where
  "zero_pad width s = replicate (width - length s) CHR ''0'' @ s"

definition strftime_ymd :: "struct_time \<Rightarrow> string" where
  "strftime_ymd t =
     zero_pad 4 (str_nat (tm_year t)) @ ''-'' @ zero_pad 2 (str_nat (tm_mon t))
       @ ''-'' @ zero_pad 2 (str_nat (tm_mday t))"

text \<open>The path of the audio file of an entry, lines 96 to 102 of the script.\<close>

definition audio_path :: "string \<Rightarrow> entry \<Rightarrow> int \<Rightarrow> string" where
  "audio_path base_dir en i =
     (let filename =
        (case (itunes_season en, itunes_episode en) of
           (Some season, Some episode) \<Rightarrow> season @ ''x'' @ episode @ ''_'' @ str_int i
         | _ \<Rightarrow> str_int i)
      in base_dir @ ''/'' @ filename @ ''.mp3'')"

text \<open>
  One round of the loop over \<open>feed.entries\<close>: the records that the entry adds (none or
  one). A missing or non-numeric identifier and a missing date raise, and nothing in
  \<open>process_feed\<close> catches that.
\<close>

definition process_entry ::
  "env \<Rightarrow> int list option \<Rightarrow> string \<Rightarrow> entry \<Rightarrow> 's world \<Rightarrow> (error + audio list) \<times> 's world" where
  "process_entry e id_list base_dir en w =
     (case enclosures en of
        None \<Rightarrow> (Inr [], w)
      | Some [] \<Rightarrow> (Inr [], w)
      | Some (None # _) \<Rightarrow> (Inr [], w)
      | Some (Some u # _) \<Rightarrow>
          if u = [] then (Inr [], w)
          else
            (case entry_id en of
               None \<Rightarrow> (Inl TypeError, w)
             | Some full_id \<Rightarrow>
                 (case py_int (path_tail full_id) of
                    None \<Rightarrow> (Inl (ValueError ''invalid literal for int()''), w)
                  | Some i \<Rightarrow>
                      if (case id_list of None \<Rightarrow> False | Some ids \<Rightarrow> i \<in> set ids)
                      then (Inr [], w)
                      else
                        (case download_file e u (audio_path base_dir en i) w of
                           (Some True, w') \<Rightarrow>
                             (case published_parsed en of
                                None \<Rightarrow> (Inl TypeError, w')
                              | Some t \<Rightarrow>
                                  (Inr [\<lparr>audio_id = i,
                                         pub_date = strftime_ymd t,
                                         audio_title = title en,
                                         duration = itunes_duration en,
                                         audio_filepath = audio_path base_dir en i,
                                         audio_url = u\<rparr>], w'))
                         | (_, w') \<Rightarrow> (Inr [], w')))))"

fun process_entries ::
  "env \<Rightarrow> int list option \<Rightarrow> string \<Rightarrow> entry list \<Rightarrow> audio list \<Rightarrow> 's world
     \<Rightarrow> (error + audio list) \<times> 's world" where
  "process_entries e id_list base_dir [] new_audio_list w = (Inr new_audio_list, w)"
| "process_entries e id_list base_dir (en # rest) new_audio_list w =
     (case process_entry e id_list base_dir en w of
        (Inl err, w') \<Rightarrow> (Inl err, w')
      | (Inr added, w') \<Rightarrow>
          process_entries e id_list base_dir rest (new_audio_list @ added) w')"

text \<open>
  \<open>process_feed\<close>. \<open>id_list\<close> is None when the descriptor has no episode yet (the list
  is absent or empty), and the test \<open>if id_list\<close> fails exactly then.
\<close>

definition process_feed ::
  "env \<Rightarrow> feed \<Rightarrow> string \<Rightarrow> 's world \<Rightarrow> (error + audio list) \<times> 's world" where
  "process_feed e feed_info output_dir w =
     (let id_list = (case audio_list feed_info of
                       None \<Rightarrow> None
                     | Some al \<Rightarrow> if al = [] then None else Some (map audio_id al))
      in case (source feed_info, feed_name feed_info, rss_url feed_info) of
           (Some src, Some nm, Some rss) \<Rightarrow>
             (let w1 = w\<lparr>requests := requests w @ [FeedGet rss]\<rparr>;
                  parsed = feedparser_parse e (length (requests w)) rss
              in if bozo parsed then (Inl (ValueError ''ERROR parsing feed''), w1)
                 else
                   (case makedirs e (path_join output_dir [src, nm]) w1 of
                      (Some err, w2) \<Rightarrow> (Inl err, w2)
                    | (None, w2) \<Rightarrow>
                        process_entries e id_list (path_join output_dir [src, nm])
                          (entries parsed) [] w2))
         | _ \<Rightarrow> (Inl (ValueError ''ERROR: Missing required field in feed_info''), w))"

text \<open>
  The loop over the feeds in \<open>main\<close>: the first component collects \<open>new_feed_rss\<close>, the
  second the feeds with their lists updated, which is what \<open>feed_rss\<close> holds after the
  loop.
\<close>

fun process_feeds ::
  "env \<Rightarrow> string \<Rightarrow> feed list \<Rightarrow> 's world \<Rightarrow> (error + feed list \<times> feed list) \<times> 's world" where
  "process_feeds e output_dir [] w = (Inr ([], []), w)"
| "process_feeds e output_dir (fd # rest) w =
     (case process_feed e fd output_dir w of
        (Inl err, w') \<Rightarrow> (Inl err, w')
      | (Inr new_audio_list, w') \<Rightarrow>
          (case process_feeds e output_dir rest w' of
             (Inl err, w'') \<Rightarrow> (Inl err, w'')
           | (Inr (new_feed_rss, updated), w'') \<Rightarrow>
               (Inr (fd\<lparr>audio_list := Some new_audio_list\<rparr> # new_feed_rss,
                     fd\<lparr>audio_list := Some (new_audio_list @ get_list (audio_list fd))\<rparr>
                       # updated), w'')))"

text \<open>
  \<open>print_summary\<close>, as far as it can raise: for each feed it reads
  \<open>feed['audio_list']\<close>, adds up the durations of the records, and reads
  \<open>feed['source']\<close> and \<open>feed['name']\<close> for the line it prints. A duration is split at
  the colons and every part goes through \<open>int\<close>; the last part counts seconds, the one
  before it minutes, the one before that hours. A duration of None has no \<open>split\<close>.
\<close>

definition duration_seconds :: "string \<Rightarrow> error + int" where
  "duration_seconds d =
     (let t = map py_int (split_on CHR '':'' d) in
      if None \<in> set t then Inl (ValueError ''invalid literal for int()'')
      else
        (let s = the (last t);
             m = (if length t > 1 then the (t ! (length t - 2)) else 0);
             h = (if length t > 2 then the (t ! (length t - 3)) else 0)
         in Inr (h * 3600 + m * 60 + s)))"

fun total_seconds :: "string option list \<Rightarrow> int \<Rightarrow> error + int" where
  "total_seconds [] seconds = Inr seconds"
| "total_seconds (None # ds) seconds = Inl AttributeError"
| "total_seconds (Some d # ds) seconds =
     (case duration_seconds d of
        Inl err \<Rightarrow> Inl err
      | Inr n \<Rightarrow> total_seconds ds (seconds + n))"

fun print_summary :: "feed list \<Rightarrow> error option" where
  "print_summary [] = None"
| "print_summary (fd # rest) =
     (case audio_list fd of
        None \<Rightarrow> Some KeyError
      | Some al \<Rightarrow>
          (case total_seconds (map duration al) 0 of
             Inl err \<Rightarrow> Some err
           | Inr seconds \<Rightarrow>
               if source fd = None \<or> feed_name fd = None then Some KeyError
               else print_summary rest))"

text \<open>
  \<open>main\<close> of the podcast downloader. Without \<open>only_stats\<close> the store is written once,
  after the last feed, and then the summary of the new records is printed. The summary
  of the whole store is printed in both modes. The result is \<open>new_feed_rss\<close> (nothing
  with \<open>only_stats\<close>).
\<close>

definition main_podcast ::
  "env \<Rightarrow> string \<Rightarrow> bool \<Rightarrow> feed list world \<Rightarrow> (error + feed list) \<times> feed list world" where
  "main_podcast e output_dir only_stats w =
     (if \<not> only_stats then
        (case process_feeds e output_dir (store w) w of
           (Inl err, w') \<Rightarrow> (Inl err, w')
         | (Inr (new_feed_rss, feed_rss), w') \<Rightarrow>
             (case print_summary new_feed_rss of
                Some err \<Rightarrow> (Inl err, w'\<lparr>store := feed_rss\<rparr>)
              | None \<Rightarrow>
                  (case print_summary feed_rss of
                     Some err \<Rightarrow> (Inl err, w'\<lparr>store := feed_rss\<rparr>)
                   | None \<Rightarrow> (Inr new_feed_rss, w'\<lparr>store := feed_rss\<rparr>))))
      else
        (case print_summary (store w) of
           Some err \<Rightarrow> (Inl err, w)
         | None \<Rightarrow> (Inr [], w)))"

text \<open>
  Running the script again and again: each run has its own surroundings and arguments
  and starts from the world that the run before it left, whether that run ended with
  an exception or not.
\<close>

fun rerun :: "(env \<times> string \<times> bool) list \<Rightarrow> feed list world \<Rightarrow> feed list world" where
  "rerun [] w = w"
| "rerun ((e, output_dir, only_stats) # runs) w =
     rerun runs (snd (main_podcast e output_dir only_stats w))"

section \<open>Sample surroundings\<close>

text \<open>
  Small concrete runs are written with these abbreviations: a table row with a name
  and one link, a server that answers every page request with the same rows and every
  payload request with the same status, one that answers with status 404 for one
  address and 200 for the others, an empty world, and records of the two stores.
\<close>

abbreviation sample_row :: "string \<Rightarrow> string \<Rightarrow> row" where
  "sample_row nm href \<equiv>
     [\<lparr>cell_text = nm, cell_hrefs = []\<rparr>, \<lparr>cell_text = [], cell_hrefs = [href]\<rparr>]"

abbreviation no_feed :: parsed_feed where
  "no_feed \<equiv> \<lparr>bozo = False, entries = []\<rparr>"

abbreviation sample_feed_of :: "entry list \<Rightarrow> parsed_feed" where
  "sample_feed_of ens \<equiv> \<lparr>bozo = False, entries = ens\<rparr>"

abbreviation sample_env :: "row list \<Rightarrow> nat \<Rightarrow> parsed_feed \<Rightarrow> env" where
  "sample_env rows status fd \<equiv>
     \<lparr>get_page = (\<lambda>t u. Reply 200 rows),
      http_get = (\<lambda>t u. Reply status (Complete ''payload'')),
      feedparser_parse = (\<lambda>t u. fd),
      can_write = (\<lambda>p. True),
      can_mkdir = (\<lambda>p. True)\<rparr>"

abbreviation sample_env_failing :: "row list \<Rightarrow> string \<Rightarrow> env" where
  "sample_env_failing rows bad \<equiv>
     \<lparr>get_page = (\<lambda>t u. Reply 200 rows),
      http_get = (\<lambda>t u. Reply (if u = bad then 404 else 200) (Complete ''payload'')),
      feedparser_parse = (\<lambda>t u. no_feed),
      can_write = (\<lambda>p. True),
      can_mkdir = (\<lambda>p. True)\<rparr>"

abbreviation sample_world :: "'s \<Rightarrow> 's world" where
  "sample_world s \<equiv> \<lparr>files = Map.empty, requests = [], stdout = [], store = s\<rparr>"

abbreviation world_with_file :: "string \<Rightarrow> string \<Rightarrow> 's \<Rightarrow> 's world" where
  "world_with_file path bytes s \<equiv>
     \<lparr>files = [path \<mapsto> File bytes], requests = [], stdout = [], store = s\<rparr>"

abbreviation sample_info :: "string \<Rightarrow> string \<Rightarrow> xml_info" where
  "sample_info nm file \<equiv>
     \<lparr>name = nm, xml_filepath = ''out/XII/'' @ file,
      xml_url = ''https://www.legebiltzarra.eus/xml?f='' @ file\<rparr>"

abbreviation sample_group :: "xml_info list \<Rightarrow> xml_metadata" where
  "sample_group known \<equiv>
     \<lparr>html_url = Some ''https://www.legebiltzarra.eus/list'',
      metadata_name = Some ''XII'',
      xml_info_list = Some known\<rparr>"

abbreviation sample_entry :: "string \<Rightarrow> entry" where
  "sample_entry fid \<equiv>
     \<lparr>enclosures = Some [Some ''https://cdn.example/audio.mp3''],
      entry_id = Some fid,
      published_parsed = Some \<lparr>tm_year = 2024, tm_mon = 3, tm_mday = 9\<rparr>,
      title = Some ''Episode'',
      itunes_duration = Some ''1:02:03'',
      itunes_season = None,
      itunes_episode = None\<rparr>"

abbreviation sample_record :: "int \<Rightarrow> string \<Rightarrow> audio" where
  "sample_record i path \<equiv>
     \<lparr>audio_id = i, pub_date = ''2024-03-09'', audio_title = Some ''Episode'',
      duration = Some ''1:02:03'', audio_filepath = path,
      audio_url = ''https://cdn.example/audio.mp3''\<rparr>"

abbreviation sample_feed :: "audio list \<Rightarrow> feed" where
  "sample_feed known \<equiv>
     \<lparr>source = Some ''ivoox'', feed_name = Some ''show'',
      rss_url = Some ''https://www.ivoox.com/feed.xml'',
      audio_list = Some known\<rparr>"

section \<open>Properties of the video segment extractor\<close>

subsection \<open>Which candidates are accepted\<close>

lemma split_on_not_Nil: "split_on c s \<noteq> []"
  by (induction s) (auto split: list.splits)

lemma unquote_item_not_Nil: "unquote_item x \<noteq> []"
  by (cases x rule: unquote_item.cases) (auto split: option.splits)

lemma split_on_nonempty: "s \<noteq> [] \<Longrightarrow> split_on c s = b # bits \<Longrightarrow> b \<noteq> [] \<or> bits \<noteq> []"
  using split_on_not_Nil[of c "tl s"] by (cases s) (auto split: if_splits list.splits)

lemma unquote_not_Nil: "s \<noteq> [] \<Longrightarrow> unquote s \<noteq> []"
  using split_on_not_Nil[of "CHR ''%''" s] split_on_nonempty[of s "CHR ''%''"]
  by (cases "split_on CHR ''%'' s") (auto simp: unquote_def unquote_item_not_Nil)

lemma unquote_plus_not_Nil: "s \<noteq> [] \<Longrightarrow> unquote_plus s \<noteq> []"
  by (simp add: unquote_plus_def unquote_not_Nil)

text \<open>The dictionary of \<open>parse_qs\<close> holds, for each name, its values in order.\<close>

lemma foldl_add_pair:
  "foldl add_pair m ps k =
     (case m k of
        None \<Rightarrow> (if map snd (filter (\<lambda>p. fst p = k) ps) = [] then None
                  else Some (map snd (filter (\<lambda>p. fst p = k) ps)))
      | Some vs \<Rightarrow> Some (vs @ map snd (filter (\<lambda>p. fst p = k) ps)))"
  by (induction ps arbitrary: m) (auto simp: add_pair_def split: option.splits)

lemma partition_on_Nil: "partition_on c [] = ([], [])"
  by (simp add: partition_on_def)

lemma parse_qsl_mem:
  "(k, v) \<in> set (parse_qsl q) \<longleftrightarrow>
     (\<exists>f \<in> set (split_on CHR ''&'' q).
        snd (partition_on CHR ''='' f) \<noteq> [] \<and>
        k = unquote_plus (fst (partition_on CHR ''='' f)) \<and>
        v = unquote_plus (snd (partition_on CHR ''='' f)))"
proof (cases "q = []")
  case True
  then show ?thesis by (simp add: parse_qsl_def partition_on_Nil)
next
  case False
  have ne: "\<And>f. snd (partition_on CHR ''='' f) \<noteq> [] \<Longrightarrow> f \<noteq> []"
    by (auto simp: partition_on_Nil)
  show ?thesis using False ne
    by (simp add: parse_qsl_def case_prod_beta Let_def) blast
qed

lemma parse_qsl_values_not_Nil: "(k, v) \<in> set (parse_qsl q) \<Longrightarrow> v \<noteq> []"
  unfolding parse_qsl_mem using unquote_plus_not_Nil by fast

lemma parse_qsl_names:
  "k \<in> fst ` set (parse_qsl q) \<longleftrightarrow>
     (\<exists>f \<in> set (split_on CHR ''&'' q).
        snd (partition_on CHR ''='' f) \<noteq> [] \<and> unquote_plus (fst (partition_on CHR ''='' f)) = k)"
  (is "?L \<longleftrightarrow> ?R")
proof
  assume ?L
  then obtain v where "(k, v) \<in> set (parse_qsl q)" by force
  then show ?R by (simp only: parse_qsl_mem) fast
next
  assume ?R
  then obtain f where f: "f \<in> set (split_on CHR ''&'' q)"
      "snd (partition_on CHR ''='' f) \<noteq> []" "unquote_plus (fst (partition_on CHR ''='' f)) = k"
    by fast
  have "(k, unquote_plus (snd (partition_on CHR ''='' f))) \<in> set (parse_qsl q)"
    by (simp only: parse_qsl_mem) (use f in fast)
  then show ?L by force
qed

lemma truthy_get_param:
  "truthy (get_param (parse_qs q) k) \<longleftrightarrow> k \<in> fst ` set (parse_qsl q)"
proof -
  let ?vs = "map snd (filter (\<lambda>p. fst p = k) (parse_qsl q))"
  have all_ne: "\<forall>v \<in> set ?vs. v \<noteq> []"
    using parse_qsl_values_not_Nil by auto
  have mem: "?vs \<noteq> [] \<longleftrightarrow> k \<in> fst ` set (parse_qsl q)"
    by (auto simp: filter_empty_conv image_iff)
  show ?thesis
  proof (cases ?vs)
    case Nil
    then show ?thesis using mem
      by (simp add: parse_qs_def foldl_add_pair get_param_def truthy_def)
  next
    case (Cons v vs)
    then have "v \<noteq> []" using all_ne by (metis list.set_intros(1))
    then show ?thesis using mem Cons
      by (simp add: parse_qs_def foldl_add_pair get_param_def truthy_def)
  qed
qed

text \<open>
  Claim C1, as the code has it. A candidate is accepted exactly when its text contains
  \<open>streamlegealdia\<close> or \<open>streamdbstart\<close> somewhere and its query string has a field
  with a non-empty value whose name is \<open>streamdbstart\<close> or \<open>streamdbend\<close>. The first
  condition is the guard at the head of \<open>_parse_video_url\<close>: a candidate whose only
  parameter is the end timestamp does not pass it.
\<close>

theorem parse_video_url_accepts_iff:
  "(\<exists>info. parse_video_url check_netloc u = Inr (Some info)) \<longleftrightarrow>
     (contains u ''streamlegealdia'' \<or> contains u ''streamdbstart'') \<and>
     (\<exists>q. urlparse_query check_netloc u = Inr q \<and>
        (\<exists>f \<in> set (split_on CHR ''&'' q).
           snd (partition_on CHR ''='' f) \<noteq> [] \<and>
           unquote_plus (fst (partition_on CHR ''='' f)) \<in> {''streamdbstart'', ''streamdbend''}))"
proof (cases "urlparse_query check_netloc u")
  case (Inl e)
  then show ?thesis by (simp add: parse_video_url_def)
next
  case (Inr q)
  have "truthy (get_param (parse_qs q) ''streamdbstart'') \<or> truthy (get_param (parse_qs q) ''streamdbend'')
      \<longleftrightarrow> (\<exists>f \<in> set (split_on CHR ''&'' q).
           snd (partition_on CHR ''='' f) \<noteq> [] \<and>
           unquote_plus (fst (partition_on CHR ''='' f)) \<in> {''streamdbstart'', ''streamdbend''})"
    unfolding truthy_get_param parse_qsl_names by blast
  then show ?thesis using Inr
    by (auto simp: parse_video_url_def Let_def)
qed

theorem parse_video_url_accepts_iff_witness:
  "\<exists>info. parse_video_url (\<lambda>n. None)
     ''https://www.legebiltzarra.eus/videos?streamlegealdia=11&streamdbend=120'' = Inr (Some info)"
proof -
  let ?u = "''https://www.legebiltzarra.eus/videos?streamlegealdia=11&streamdbend=120''"
  have guard: "contains ?u ''streamlegealdia''"
    by code_simp
  have query: "urlparse_query (\<lambda>n. None) ?u = Inr ''streamlegealdia=11&streamdbend=120''"
    by code_simp
  have field: "''streamdbend=120'' \<in> set (split_on CHR ''&'' ''streamlegealdia=11&streamdbend=120'')"
    by code_simp
  have val: "snd (partition_on CHR ''='' ''streamdbend=120'') \<noteq> []"
    by code_simp
  have nm: "unquote_plus (fst (partition_on CHR ''='' ''streamdbend=120'')) = ''streamdbend''"
    by code_simp
  show ?thesis
    using parse_video_url_accepts_iff [of "\<lambda>n. None" ?u] guard query field val nm
    by (simp only: insert_iff simp_thms) fast
qed

text \<open>
  Claim C1 as it is written fails: the first text below contains the host name and
  \<open>videos\<close>, its query string is \<open>streamdbend=120\<close>, which \<open>parse_qs\<close> reads as an end
  timestamp, and the candidate is discarded. The second text passes the guard and
  names the start timestamp in its query string, but with an empty value, which
  \<open>parse_qs\<close> drops, and the candidate is discarded as well.
\<close>

theorem end_timestamp_only_counterexample:
  "contains ''https://www.legebiltzarra.eus/videos?streamdbend=120'' ''legebiltzarra.eus''
   \<and> contains ''https://www.legebiltzarra.eus/videos?streamdbend=120'' ''videos''
   \<and> urlparse_query (\<lambda>n. None) ''https://www.legebiltzarra.eus/videos?streamdbend=120''
        = Inr ''streamdbend=120''
   \<and> get_param (parse_qs ''streamdbend=120'') ''streamdbend'' = Some ''120''
   \<and> parse_video_url (\<lambda>n. None) ''https://www.legebiltzarra.eus/videos?streamdbend=120''
        = Inr None
   \<and> urlparse_query (\<lambda>n. None) ''https://www.legebiltzarra.eus/videos?streamdbstart=''
        = Inr ''streamdbstart=''
   \<and> parse_video_url (\<lambda>n. None) ''https://www.legebiltzarra.eus/videos?streamdbstart=''
        = Inr None"
  by code_simp

subsection \<open>The description of a segment\<close>

text \<open>
  No key of the parent map is the position of the element on which \<open>find\<close> was called:
  every key is the position of a child.
\<close>

lemma parent_map_keys: "(c, p) \<in> set (get_parent_map root) \<Longrightarrow> c \<noteq> []"
  by (auto simp: get_parent_map_def split: option.splits)

lemma find_parent_None: "find_parent elem = None"
proof -
  have "map_of (rev (get_parent_map elem)) [] = None"
    using parent_map_keys[of "[]" _ elem] by (auto simp: map_of_eq_None_iff image_iff)
  then show ?thesis by (simp add: find_parent_def)
qed

lemma get_description_None: "get_description element = None"
  by (simp add: get_description_def find_parent_None eval_nat_numeral)

text \<open>
  Claim C2 at a document where it fails. The element with the stream address has a
  parent one level up, and that parent has a description node with the text
  \<open>Budget debate\<close> among its descendants. The claim gives the segment this description;
  the extractor gives it none, because \<open>find('..')\<close> on the matched element
  finds no parent.
\<close>

theorem get_description_misses_parent_description:
  "find_descendant ''sesiones_pleno_asunto_indice_descripcion''
     (Element ''sesiones_pleno_asunto'' None
        [Element ''sesiones_pleno_asunto_indice_descripcion'' (Some ''Budget debate'') [],
         Element ''video'' (Some ''https://www.legebiltzarra.eus/videos?streamdbstart=12'') []])
     = Some (Element ''sesiones_pleno_asunto_indice_descripcion'' (Some ''Budget debate'') [])
   \<and> map description (projr (extract_video_links (\<lambda>n. None)
     (Element ''sesiones_pleno_asunto'' None
        [Element ''sesiones_pleno_asunto_indice_descripcion'' (Some ''Budget debate'') [],
         Element ''video'' (Some ''https://www.legebiltzarra.eus/videos?streamdbstart=12'') []])))
     = [None]
   \<and> get_description
        (Element ''video'' (Some ''https://www.legebiltzarra.eus/videos?streamdbstart=12'') [])
     = None"
  by code_simp

section \<open>Properties of the XML session downloader\<close>

subsection \<open>What one row and one page can add\<close>

lemma download_xml_Inr:
  assumes "download_xml e cells b o' known w = (Inr info, w')"
  shows "2 \<le> length cells \<and> name info = cell_text (cells ! 0)
         \<and> name info \<notin> name ` set known \<and> store w' = store w
         \<and> cell_hrefs (cells ! 1) \<noteq> []"
  using assms unfolding download_xml_def Let_def write_file_def
  by (auto split: if_splits list.splits reply.splits body.splits sum.splits)

lemma download_xml_store:
  "download_xml e cells b o' known w = (r, w') \<Longrightarrow> store w' = store w"
  unfolding download_xml_def Let_def write_file_def
  by (auto split: if_splits list.splits reply.splits body.splits sum.splits)

lemma download_rows_distinct:
  "download_rows e b o' known rows acc w = (Inr res, w') \<Longrightarrow>
   distinct (map (\<lambda>r. cell_text (r ! 0))
      (filter (\<lambda>r. 2 \<le> length r \<and> cell_text (r ! 0) \<notin> name ` set known
                   \<and> cell_hrefs (r ! 1) \<noteq> []) rows)) \<Longrightarrow>
   distinct (map name acc) \<Longrightarrow>
   \<forall>x \<in> set acc. name x \<notin> name ` set known \<Longrightarrow>
   \<forall>x \<in> set acc. name x \<notin> (\<lambda>r. cell_text (r ! 0)) `
      {r \<in> set rows. 2 \<le> length r \<and> cell_text (r ! 0) \<notin> name ` set known
                     \<and> cell_hrefs (r ! 1) \<noteq> []} \<Longrightarrow>
   distinct (map name res) \<and> (\<forall>x \<in> set res. name x \<notin> name ` set known)"
proof (induction rows arbitrary: acc w)
  case Nil
  then show ?case by simp
next
  case (Cons r rows)
  obtain x w1 where dx: "download_xml e r b o' known w = (x, w1)" by force
  have d: "distinct (map (\<lambda>r. cell_text (r ! 0))
      (filter (\<lambda>r. 2 \<le> length r \<and> cell_text (r ! 0) \<notin> name ` set known
                   \<and> cell_hrefs (r ! 1) \<noteq> []) rows))"
    using Cons.prems(2) by (auto split: if_splits)
  have rest: "\<forall>x \<in> set acc. name x \<notin> (\<lambda>r. cell_text (r ! 0)) `
      {r \<in> set rows. 2 \<le> length r \<and> cell_text (r ! 0) \<notin> name ` set known
                     \<and> cell_hrefs (r ! 1) \<noteq> []}"
    using Cons.prems(5) by auto
  show ?case
  proof (cases x)
    case (Inr info)
    from dx Inr have info: "2 \<le> length r" "name info = cell_text (r ! 0)"
        "name info \<notin> name ` set known" "cell_hrefs (r ! 1) \<noteq> []"
      using download_xml_Inr[of e r b o' known w info w1] by auto
    have run: "download_rows e b o' known rows (acc @ [info]) w1 = (Inr res, w')"
      using Cons.prems(1) dx Inr by simp
    have fresh: "cell_text (r ! 0) \<notin> (\<lambda>r. cell_text (r ! 0)) `
        {r \<in> set rows. 2 \<le> length r \<and> cell_text (r ! 0) \<notin> name ` set known
                       \<and> cell_hrefs (r ! 1) \<noteq> []}"
      using Cons.prems(2) info by auto
    have "r \<in> {r' \<in> set (r # rows). 2 \<le> length r' \<and> cell_text (r' ! 0) \<notin> name ` set known
                       \<and> cell_hrefs (r' ! 1) \<noteq> []}"
      using info by simp
    then have "cell_text (r ! 0) \<in> (\<lambda>r. cell_text (r ! 0)) `
        {r' \<in> set (r # rows). 2 \<le> length r' \<and> cell_text (r' ! 0) \<notin> name ` set known
                       \<and> cell_hrefs (r' ! 1) \<noteq> []}"
      by (rule imageI)
    then have mem: "cell_text (r ! 0) \<in> (\<lambda>r. cell_text (r ! 0)) `
        {r' \<in> set (r # rows). 2 \<le> length r' \<and> cell_text (r' ! 0) \<notin> name ` set known
                       \<and> cell_hrefs (r' ! 1) \<noteq> []}" .
    have "\<forall>x \<in> set acc. name x \<noteq> cell_text (r ! 0)"
    proof (intro ballI notI)
      fix x
      assume xa: "x \<in> set acc" and eq: "name x = cell_text (r ! 0)"
      from Cons.prems(5) xa have "name x \<notin> (\<lambda>r. cell_text (r ! 0)) `
        {r' \<in> set (r # rows). 2 \<le> length r' \<and> cell_text (r' ! 0) \<notin> name ` set known
                       \<and> cell_hrefs (r' ! 1) \<noteq> []}"
        by (rule bspec)
      moreover from mem have "name x \<in> (\<lambda>r. cell_text (r ! 0)) `
        {r' \<in> set (r # rows). 2 \<le> length r' \<and> cell_text (r' ! 0) \<notin> name ` set known
                       \<and> cell_hrefs (r' ! 1) \<noteq> []}"
        by (simp only: eq)
      ultimately show False by (rule notE)
    qed
    then have a1: "distinct (map name (acc @ [info]))"
      using Cons.prems(3) info(2) by auto
    have a2: "\<forall>x \<in> set (acc @ [info]). name x \<notin> name ` set known"
      using Cons.prems(4) info by auto
    have a3: "\<forall>x \<in> set (acc @ [info]). name x \<notin> (\<lambda>r. cell_text (r ! 0)) `
        {r \<in> set rows. 2 \<le> length r \<and> cell_text (r ! 0) \<notin> name ` set known
                       \<and> cell_hrefs (r ! 1) \<noteq> []}"
      using rest fresh info(2) by auto
    show ?thesis using Cons.IH[OF run d a1 a2 a3] .
  next
    case (Inl err)
    show ?thesis
    proof (cases err)
      case (ValueError msg)
      have run: "download_rows e b o' known rows acc
                   (w1\<lparr>stdout := stdout w1 @ [''Caught exception: '' @ msg]\<rparr>) = (Inr res, w')"
        using Cons.prems(1) dx Inl ValueError by simp
      show ?thesis using Cons.IH[OF run d Cons.prems(3,4) rest] .
    qed (use Cons.prems(1) dx Inl in auto)
  qed
qed

lemma download_rows_store:
  "download_rows e b o' known rows acc w = (r, w') \<Longrightarrow> store w' = store w"
proof (induction rows arbitrary: acc w)
  case Nil
  then show ?case by simp
next
  case (Cons r0 rows)
  obtain x w1 where dx: "download_xml e r0 b o' known w = (x, w1)" by force
  have s1: "store w1 = store w" using download_xml_store[OF dx] .
  show ?case
  proof (cases x)
    case (Inr info)
    then have "download_rows e b o' known rows (acc @ [info]) w1 = (r, w')"
      using Cons.prems dx by simp
    from Cons.IH[OF this] s1 show ?thesis by simp
  next
    case (Inl err)
    show ?thesis
    proof (cases err)
      case (ValueError msg)
      then have "download_rows e b o' known rows acc
                   (w1\<lparr>stdout := stdout w1 @ [''Caught exception: '' @ msg]\<rparr>) = (r, w')"
        using Cons.prems dx Inl by simp
      from Cons.IH[OF this] s1 show ?thesis by simp
    qed (use Cons.prems dx Inl s1 in auto)
  qed
qed

lemma mkdir_all_requests:
  "makedirs e p w = (r, w') \<Longrightarrow> requests w' = requests w \<and> store w' = store w \<and> stdout w' = stdout w"
  by (auto simp: makedirs_def split: if_splits prod.splits)

lemma process_group_store:
  "process_group e d g w = (res, w') \<Longrightarrow> store w' = store w"
proof -
  assume run: "process_group e d g w = (res, w')"
  obtain r1 w1 where mk: "makedirs e (d @ ''/'' @ py_str (metadata_name g)) w = (r1, w1)"
    by force
  have w1: "store w1 = store w" using mkdir_all_requests[OF mk] by simp
  show ?thesis
    using run mk w1
    by (auto simp: process_group_def Let_def dest: download_rows_store
             split: option.splits reply.splits if_splits)
qed

lemma process_groups_store:
  "process_groups e d gs w = (res, w') \<Longrightarrow> store w' = store w"
proof (induction gs arbitrary: w res w')
  case Nil
  then show ?case by simp
next
  case (Cons g gs)
  obtain r1 w1 where pg: "process_group e d g w = (r1, w1)" by force
  have s1: "store w1 = store w" using process_group_store[OF pg] .
  show ?case
  proof (cases r1)
    case (Inl err)
    then show ?thesis using Cons.prems pg s1 by simp
  next
    case (Inr new)
    obtain r2 w2 where pgs: "process_groups e d gs w1 = (r2, w2)" by force
    have s2: "store w2 = store w1" using Cons.IH[OF pgs] .
    have "w' = w2" using Cons.prems pg Inr pgs
      by (cases r2) (auto split: prod.splits)
    then show ?thesis using s1 s2 by simp
  qed
qed

lemma process_groups_shape:
  "process_groups e d gs w = (Inr (nl, up), w') \<Longrightarrow>
     length nl = length gs \<and>
     up = map2 (\<lambda>g n. g\<lparr>xml_info_list :=
                  Some (get_list (xml_info_list n) @ get_list (xml_info_list g))\<rparr>) gs nl"
proof (induction gs arbitrary: w nl up w')
  case Nil
  then show ?case by simp
next
  case (Cons g gs)
  obtain r1 w1 where pg: "process_group e d g w = (r1, w1)" by force
  obtain r2 w2 where pgs: "process_groups e d gs w1 = (r2, w2)" by force
  from Cons.prems pg obtain new where r1: "r1 = Inr new"
    by (cases r1) auto
  from Cons.prems pg pgs r1 obtain nl' up' where r2: "r2 = Inr (nl', up')"
    by (cases r2) auto
  have nl: "nl = g\<lparr>xml_info_list := Some new\<rparr> # nl'"
    and up: "up = g\<lparr>xml_info_list := Some (new @ get_list (xml_info_list g))\<rparr> # up'"
    using Cons.prems pg pgs r1 r2 by auto
  from Cons.IH[of w1 nl' up' w2] pgs r2
  have "length nl' = length gs \<and>
     up' = map2 (\<lambda>g n. g\<lparr>xml_info_list :=
                  Some (get_list (xml_info_list n) @ get_list (xml_info_list g))\<rparr>) gs nl'"
    by simp
  then show ?case using nl up by (simp add: get_list_def)
qed

lemma process_group_page:
  assumes "process_group e d g w = (Inr new, w')"
  shows "\<exists>t u st rows b o' w2. html_url g = Some u \<and> get_page e t u = Reply st rows \<and>
           download_rows e b o' (get_list (xml_info_list g)) rows [] w2 = (Inr new, w')"
proof -
  obtain r1 w1 where mk: "makedirs e (d @ ''/'' @ py_str (metadata_name g)) w = (r1, w1)"
    by force
  show ?thesis
    using assms mk
    by (auto simp: process_group_def Let_def
             split: option.splits reply.splits if_splits) blast+
qed

lemma process_group_distinct:
  assumes run: "process_group e d g w = (Inr new, w')"
    and old: "distinct (map name (get_list (xml_info_list g)))"
    and pages: "\<forall>t u st rows. html_url g = Some u \<longrightarrow> get_page e t u = Reply st rows \<longrightarrow>
        distinct (map (\<lambda>r. cell_text (r ! 0))
          (filter (\<lambda>r. 2 \<le> length r
                       \<and> cell_text (r ! 0) \<notin> name ` set (get_list (xml_info_list g))
                       \<and> cell_hrefs (r ! 1) \<noteq> []) rows))"
  shows "distinct (map name (new @ get_list (xml_info_list g)))"
proof -
  from process_group_page[OF run] obtain t u st rows b o' w2 where
    url: "html_url g = Some u" and
    page: "get_page e t u = Reply st rows" and
    dr: "download_rows e b o' (get_list (xml_info_list g)) rows [] w2 = (Inr new, w')"
    by blast
  have d: "distinct (map (\<lambda>r. cell_text (r ! 0))
          (filter (\<lambda>r. 2 \<le> length r
                       \<and> cell_text (r ! 0) \<notin> name ` set (get_list (xml_info_list g))
                       \<and> cell_hrefs (r ! 1) \<noteq> []) rows))"
    using pages url page by blast
  have "distinct (map name new) \<and> (\<forall>x \<in> set new. name x \<notin> name ` set (get_list (xml_info_list g)))"
    using download_rows_distinct[OF dr d] by simp
  then show ?thesis using old by auto
qed

lemma process_groups_distinct:
  assumes "process_groups e d gs w = (Inr (nl, up), w')"
    and "i < length gs"
    and "distinct (map name (get_list (xml_info_list (gs ! i))))"
    and "\<forall>t u st rows. html_url (gs ! i) = Some u \<longrightarrow> get_page e t u = Reply st rows \<longrightarrow>
        distinct (map (\<lambda>r. cell_text (r ! 0))
          (filter (\<lambda>r. 2 \<le> length r
                       \<and> cell_text (r ! 0) \<notin> name ` set (get_list (xml_info_list (gs ! i)))
                       \<and> cell_hrefs (r ! 1) \<noteq> []) rows))"
  shows "distinct (map name (get_list (xml_info_list (up ! i))))"
  using assms
proof (induction gs arbitrary: w nl up w' i)
  case Nil
  then show ?case by simp
next
  case (Cons g gs)
  obtain r1 w1 where pg: "process_group e d g w = (r1, w1)" by force
  obtain r2 w2 where pgs: "process_groups e d gs w1 = (r2, w2)" by force
  from Cons.prems(1) pg obtain new where r1: "r1 = Inr new"
    by (cases r1) auto
  from Cons.prems(1) pg pgs r1 obtain nl' up' where r2: "r2 = Inr (nl', up')"
    by (cases r2) auto
  have up: "up = g\<lparr>xml_info_list := Some (new @ get_list (xml_info_list g))\<rparr> # up'"
    using Cons.prems(1) pg pgs r1 r2 by auto
  show ?case
  proof (cases i)
    case 0
    have pg': "process_group e d g w = (Inr new, w1)" using pg r1 by simp
    have "distinct (map name (new @ get_list (xml_info_list g)))"
      using process_group_distinct[OF pg'] Cons.prems(3,4) 0 by simp
    then show ?thesis using up 0 by (simp add: get_list_def)
  next
    case (Suc j)
    have pgs': "process_groups e d gs w1 = (Inr (nl', up'), w2)" using pgs r2 by simp
    have "distinct (map name (get_list (xml_info_list (up' ! j))))"
      using Cons.IH[OF pgs', of j] Cons.prems(2,3,4) Suc by simp
    then show ?thesis using up Suc by simp
  qed
qed

lemma print_xml_lines_frame:
  "print_xml_lines mds w = (r, w') \<Longrightarrow>
     store w' = store w \<and> files w' = files w \<and> requests w' = requests w"
proof (induction mds arbitrary: w)
  case Nil
  then show ?case by simp
next
  case (Cons md mds)
  show ?case
  proof (cases "metadata_name md")
    case None
    then show ?thesis using Cons.prems by simp
  next
    case (Some nm)
    show ?thesis
    proof (cases "xml_info_list md")
      case None
      then show ?thesis using Cons.prems Some by simp
    next
      case infos: (Some infos)
      have "print_xml_lines mds
              (w\<lparr>stdout := stdout w
                   @ [''  - '' @ nm @ '': '' @ str_nat (length infos) @ '' files'']\<rparr>) = (r, w')"
        using Cons.prems Some infos by simp
      from Cons.IH[OF this] show ?thesis by simp
    qed
  qed
qed

lemma print_xml_summary_frame:
  "print_xml_summary mds ttl w = (r, w') \<Longrightarrow>
     store w' = store w \<and> files w' = files w \<and> requests w' = requests w"
  unfolding print_xml_summary_def by (drule print_xml_lines_frame) simp

text \<open>
  How \<open>main\<close> ends: with the exception that left the loop over the groups, and then the
  world is the one the loop left; or after the loop, and then the store holds the
  updated groups and \<open>main\<close> returns the new ones unless a summary raises KeyError.
\<close>

lemma print_xml_lines_error:
  "print_xml_lines mds w = (Some err, w') \<Longrightarrow> err = KeyError"
proof (induction mds arbitrary: w)
  case Nil
  then show ?case by simp
next
  case (Cons md mds)
  then show ?case
    by (cases "metadata_name md"; cases "xml_info_list md") auto
qed

lemma main_xml_cases:
  assumes "main_xml e d w = (res, w')"
  shows "(\<exists>err. process_groups e d (store w) w = (Inl err, w') \<and> res = Inl err)
       \<or> (\<exists>nl up w1. process_groups e d (store w) w = (Inr (nl, up), w1) \<and> store w' = up
             \<and> files w' = files w1 \<and> requests w' = requests w1
             \<and> (res = Inr nl \<or> res = Inl KeyError))"
proof -
  obtain r1 w1 where pgs: "process_groups e d (store w) w = (r1, w1)" by force
  show ?thesis
  proof (cases r1)
    case (Inl err)
    then show ?thesis using assms pgs by (simp add: main_xml_def)
  next
    case (Inr p)
    obtain nl up where p: "p = (nl, up)" by (cases p)
    let ?w2 = "w1\<lparr>store := up, stdout := stdout w1 @ [CHR 0x0A # '':::::: XML SUMMARY ::::::'']\<rparr>"
    obtain r3 w3 where s1: "print_xml_summary nl ''New Data'' ?w2 = (r3, w3)" by force
    obtain r4 w4 where s2: "print_xml_summary up ''Total Data'' w3 = (r4, w4)" by force
    have f3: "store w3 = up" "files w3 = files w1" "requests w3 = requests w1"
      using print_xml_summary_frame[OF s1] by simp_all
    have f4: "store w4 = up" "files w4 = files w1" "requests w4 = requests w1"
      using print_xml_summary_frame[OF s2] f3 by simp_all
    have e3: "\<And>err. r3 = Some err \<Longrightarrow> err = KeyError"
      using s1 print_xml_lines_error unfolding print_xml_summary_def by blast
    have e4: "\<And>err. r4 = Some err \<Longrightarrow> err = KeyError"
      using s2 print_xml_lines_error unfolding print_xml_summary_def by blast
    have m: "main_xml e d w =
            (case r3 of Some err \<Rightarrow> (Inl err, w3)
             | None \<Rightarrow> (case r4 of Some err \<Rightarrow> (Inl err, w4) | None \<Rightarrow> (Inr nl, w4)))"
      using pgs Inr p s1 s2 by (cases r3) (simp_all add: main_xml_def Let_def)
    show ?thesis
    proof (cases r3)
      case (Some err)
      then show ?thesis using m assms pgs Inr p f3 e3 by auto
    next
      case None
      then show ?thesis using m assms pgs Inr p f4 e4 by (cases r4) auto
    qed
  qed
qed

subsection \<open>Names of the records of a group\<close>

text \<open>
  Claim C3, as the code has it. \<open>download_xml\<close> compares the name of a row with the
  records that the group had when the run started, not with the records that the run
  has added so far. So the names of a group stay pairwise different when, in addition,
  no two rows of its index page that \<open>download_xml\<close> does not reject (at least two
  cells, a name that the group does not have yet, a link in the second cell) carry the
  same name. This is so for each group on its own, whatever the
  other groups of the store hold, and for a run that ends normally as for one that an
  exception ends.
\<close>

theorem xml_names_stay_distinct:
  assumes run: "main_xml e d w = (res, w')"
    and i: "i < length (store w)"
    and old: "distinct (map name (get_list (xml_info_list (store w ! i))))"
    and pages: "\<forall>t u st rows.
        html_url (store w ! i) = Some u \<longrightarrow> get_page e t u = Reply st rows \<longrightarrow>
        distinct (map (\<lambda>r. cell_text (r ! 0))
          (filter (\<lambda>r. 2 \<le> length r
                       \<and> cell_text (r ! 0) \<notin> name ` set (get_list (xml_info_list (store w ! i)))
                       \<and> cell_hrefs (r ! 1) \<noteq> [])
                  rows))"
  shows "i < length (store w')
         \<and> html_url (store w' ! i) = html_url (store w ! i)
         \<and> distinct (map name (get_list (xml_info_list (store w' ! i))))"
proof -
  from main_xml_cases[OF run] show ?thesis
  proof
    assume "\<exists>err. process_groups e d (store w) w = (Inl err, w') \<and> res = Inl err"
    then obtain err where "process_groups e d (store w) w = (Inl err, w')" by blast
    then have "store w' = store w" by (rule process_groups_store)
    then show ?thesis using i old by simp
  next
    assume "\<exists>nl up w1. process_groups e d (store w) w = (Inr (nl, up), w1) \<and> store w' = up
             \<and> files w' = files w1 \<and> requests w' = requests w1
             \<and> (res = Inr nl \<or> res = Inl KeyError)"
    then obtain nl up w1 where
      pgs: "process_groups e d (store w) w = (Inr (nl, up), w1)" and st: "store w' = up"
      by blast
    have sh: "length nl = length (store w)"
      "up = map2 (\<lambda>g n. g\<lparr>xml_info_list :=
                  Some (get_list (xml_info_list n) @ get_list (xml_info_list g))\<rparr>) (store w) nl"
      using process_groups_shape[OF pgs] by auto
    have "distinct (map name (get_list (xml_info_list (up ! i))))"
      using process_groups_distinct[OF pgs i old pages] .
    then show ?thesis using st sh i by simp
  qed
qed

theorem xml_names_stay_distinct_witness:
  "map name (get_list (xml_info_list (hd (store (snd (main_xml
          (sample_env [sample_row ''Pleno 1'' ''/xml?f=p1.xml'',
                       sample_row ''Pleno 1'' ''/xml?f=p1.xml'',
                       [\<lparr>cell_text = ''Pleno 2'', cell_hrefs = []\<rparr>,
                        \<lparr>cell_text = [], cell_hrefs = []\<rparr>],
                       sample_row ''Pleno 2'' ''/xml?f=p2.xml''] 200 no_feed)
          ''out'' (sample_world [sample_group [sample_info ''Pleno 1'' ''p1.xml'']])))))))
     = [''Pleno 2'', ''Pleno 1'']
   \<and> distinct (map name (get_list (xml_info_list (store (snd (main_xml
          (sample_env [sample_row ''Pleno 1'' ''/xml?f=p1.xml'',
                       sample_row ''Pleno 1'' ''/xml?f=p1.xml'',
                       [\<lparr>cell_text = ''Pleno 2'', cell_hrefs = []\<rparr>,
                        \<lparr>cell_text = [], cell_hrefs = []\<rparr>],
                       sample_row ''Pleno 2'' ''/xml?f=p2.xml''] 200 no_feed)
          ''out'' (sample_world [sample_group [sample_info ''Pleno 1'' ''p1.xml'']]))) ! 0))))"
proof -
  let ?e = "sample_env [sample_row ''Pleno 1'' ''/xml?f=p1.xml'',
                       sample_row ''Pleno 1'' ''/xml?f=p1.xml'',
                       [\<lparr>cell_text = ''Pleno 2'', cell_hrefs = []\<rparr>,
                        \<lparr>cell_text = [], cell_hrefs = []\<rparr>],
                       sample_row ''Pleno 2'' ''/xml?f=p2.xml''] 200 no_feed"
  let ?w = "sample_world [sample_group [sample_info ''Pleno 1'' ''p1.xml'']]"
  have run: "main_xml ?e ''out'' ?w = (fst (main_xml ?e ''out'' ?w), snd (main_xml ?e ''out'' ?w))"
    by simp
  have i: "0 < length (store ?w)" by simp
  have old: "distinct (map name (get_list (xml_info_list (store ?w ! 0))))"
    by (simp add: get_list_def)
  have pages: "\<forall>t u st rows.
        html_url (store ?w ! 0) = Some u \<longrightarrow> get_page ?e t u = Reply st rows \<longrightarrow>
        distinct (map (\<lambda>r. cell_text (r ! 0))
          (filter (\<lambda>r. 2 \<le> length r
                       \<and> cell_text (r ! 0) \<notin> name ` set (get_list (xml_info_list (store ?w ! 0)))
                       \<and> cell_hrefs (r ! 1) \<noteq> [])
                  rows))"
    by (auto simp: get_list_def)
  have names: "map name (get_list (xml_info_list (hd (store (snd (main_xml ?e ''out'' ?w))))))
                 = [''Pleno 2'', ''Pleno 1'']"
    by code_simp
  show ?thesis
    using xml_names_stay_distinct[OF run i old pages] names by blast
qed

text \<open>
  Claim C3 as it is written fails: the group starts with no record, the page has two
  rows with the name \<open>Pleno 1\<close>, both are downloaded, and the store that is written
  holds two records with that name.
\<close>

theorem same_page_duplicate_counterexample:
  "distinct (map name (get_list (xml_info_list (sample_group []))))
   \<and> map (\<lambda>g. map name (get_list (xml_info_list g)))
       (store (snd (main_xml
          (sample_env [sample_row ''Pleno 1'' ''/xml?f=p1.xml'',
                       sample_row ''Pleno 1'' ''/xml?f=p1.xml''] 200 no_feed)
          ''out'' (sample_world [sample_group []]))))
     = [[''Pleno 1'', ''Pleno 1'']]"
  by code_simp

subsection \<open>A page whose rows are all known\<close>

lemma download_xml_known:
  assumes "cells \<noteq> [] \<longrightarrow> cell_text (cells ! 0) \<in> name ` set known"
  shows "\<exists>msg. download_xml e cells b o' known w = (Inl (ValueError msg), w)"
proof (cases "length cells < 2")
  case True
  then show ?thesis by (simp add: download_xml_def)
next
  case False
  then have "cells \<noteq> []" by auto
  with assms have "\<exists>x \<in> set known. name x = cell_text (cells ! 0)" by force
  with False show ?thesis by (simp add: download_xml_def)
qed

lemma download_rows_known:
  assumes "\<forall>r \<in> set rows. r \<noteq> [] \<longrightarrow> cell_text (r ! 0) \<in> name ` set known"
  shows "\<exists>w'. download_rows e b o' known rows acc w = (Inr acc, w')
           \<and> requests w' = requests w \<and> files w' = files w \<and> store w' = store w"
  using assms
proof (induction rows arbitrary: w)
  case Nil
  then show ?case by simp
next
  case (Cons r rows)
  then obtain msg where dx: "download_xml e r b o' known w = (Inl (ValueError msg), w)"
    using download_xml_known[of r known e b o' w] by auto
  have "\<forall>r \<in> set rows. r \<noteq> [] \<longrightarrow> cell_text (r ! 0) \<in> name ` set known"
    using Cons.prems by simp
  from Cons.IH[OF this, of "w\<lparr>stdout := stdout w @ [''Caught exception: '' @ msg]\<rparr>"]
  show ?case using dx by simp
qed

lemma process_group_known:
  assumes known: "\<forall>u t st rows. html_url g = Some u \<longrightarrow> get_page e t u = Reply st rows \<longrightarrow>
             (\<forall>r \<in> set rows. r \<noteq> [] \<longrightarrow> cell_text (r ! 0) \<in> name ` set (get_list (xml_info_list g)))"
    and run: "process_group e d g w = (res, w')"
  shows "filter is_FileGet (requests w') = filter is_FileGet (requests w)
         \<and> (\<forall>new. res = Inr new \<longrightarrow> new = []) \<and> store w' = store w"
proof -
  obtain r1 w1 where mk: "makedirs e (d @ ''/'' @ py_str (metadata_name g)) w = (r1, w1)"
    by force
  have w1: "requests w1 = requests w" "store w1 = store w"
    using mkdir_all_requests[OF mk] by auto
  show ?thesis
  proof (cases r1)
    case (Some err)
    then show ?thesis using run mk w1 by (auto simp: process_group_def)
  next
    case None
    show ?thesis
    proof (cases "html_url g")
      case hn: None
      then show ?thesis using run mk None w1 by (auto simp: process_group_def)
    next
      case (Some u)
      let ?w2 = "w1\<lparr>requests := requests w1 @ [PageGet u]\<rparr>"
      show ?thesis
      proof (cases "get_page e (length (requests w1)) u")
        case (Raises err)
        then show ?thesis using run mk None Some w1 by (auto simp: process_group_def)
      next
        case (Reply st rows)
        have rows: "\<forall>r \<in> set rows. r \<noteq> [] \<longrightarrow> cell_text (r ! 0) \<in> name ` set (get_list (xml_info_list g))"
          using known Some Reply by blast
        show ?thesis
        proof (cases "raise_for_status st \<or> length (split_on CHR ''/'' u) < 3")
          case True
          then show ?thesis using run mk None Some Reply w1
            by (auto simp: process_group_def Let_def split: if_splits)
        next
          case False
          obtain w3 where dr: "download_rows e (''https://'' @ split_on CHR ''/'' u ! 2)
                 (d @ ''/'' @ py_str (metadata_name g)) (get_list (xml_info_list g)) rows [] ?w2 = (Inr [], w3)"
              and w3: "requests w3 = requests ?w2" "store w3 = store ?w2"
            using download_rows_known[OF rows, of e _ _ "[]" ?w2] by blast
          have "res = Inr [] \<and> w' = w3"
            using run mk None Some Reply False dr by (simp add: process_group_def Let_def)
          then show ?thesis using w3 w1 by simp
        qed
      qed
    qed
  qed
qed

lemma process_groups_known:
  assumes "\<forall>g \<in> set gs. \<forall>u t st rows. html_url g = Some u \<longrightarrow> get_page e t u = Reply st rows \<longrightarrow>
             (\<forall>r \<in> set rows. r \<noteq> [] \<longrightarrow> cell_text (r ! 0) \<in> name ` set (get_list (xml_info_list g)))"
    and "process_groups e d gs w = (res, w')"
  shows "filter is_FileGet (requests w') = filter is_FileGet (requests w)
         \<and> (\<forall>nl up. res = Inr (nl, up) \<longrightarrow>
               (\<forall>g \<in> set nl. xml_info_list g = Some [])
               \<and> map (\<lambda>g. get_list (xml_info_list g)) up = map (\<lambda>g. get_list (xml_info_list g)) gs)"
  using assms
proof (induction gs arbitrary: w res w')
  case Nil
  then show ?case by auto
next
  case (Cons g gs)
  obtain r1 w1 where pg: "process_group e d g w = (r1, w1)" by force
  have kg: "\<forall>u t st rows. html_url g = Some u \<longrightarrow> get_page e t u = Reply st rows \<longrightarrow>
             (\<forall>r \<in> set rows. r \<noteq> [] \<longrightarrow> cell_text (r ! 0) \<in> name ` set (get_list (xml_info_list g)))"
    using Cons.prems(1) by simp
  have g1: "filter is_FileGet (requests w1) = filter is_FileGet (requests w)"
    and g2: "\<forall>new. r1 = Inr new \<longrightarrow> new = []"
    using process_group_known[OF kg pg] by auto
  show ?case
  proof (cases r1)
    case (Inl err)
    then show ?thesis using Cons.prems(2) pg g1 by auto
  next
    case (Inr new)
    then have new: "new = []" using g2 by simp
    obtain r2 w2 where pgs: "process_groups e d gs w1 = (r2, w2)" by force
    have krest: "\<forall>g \<in> set gs. \<forall>u t st rows. html_url g = Some u \<longrightarrow> get_page e t u = Reply st rows \<longrightarrow>
             (\<forall>r \<in> set rows. r \<noteq> [] \<longrightarrow> cell_text (r ! 0) \<in> name ` set (get_list (xml_info_list g)))"
      using Cons.prems(1) by simp
    note ih = Cons.IH[OF krest pgs]
    show ?thesis
    proof (cases r2)
      case (Inl err)
      then show ?thesis using Cons.prems(2) pg Inr pgs ih g1 by auto
    next
      case r2: (Inr p)
      obtain nl up where p: "p = (nl, up)" by (cases p)
      have res: "res = Inr (g\<lparr>xml_info_list := Some []\<rparr> # nl,
                     g\<lparr>xml_info_list := Some (get_list (xml_info_list g))\<rparr> # up)" and w': "w' = w2"
        using Cons.prems(2) pg Inr pgs r2 p new by auto
      show ?thesis using res w' ih r2 p g1 by (simp add: get_list_def)
    qed
  qed
qed

text \<open>
  Claim C4. When, for every group of the store, every row of the index page that has a
  first cell carries a name that one of the group's records has, a run of the XML
  downloader sends no request for a payload, the list of new records of every group is
  empty, and each group's list in the store is what it was.
\<close>

theorem rerun_xml_all_known:
  assumes known: "\<forall>g \<in> set (store w). \<forall>u t st rows.
             html_url g = Some u \<longrightarrow> get_page e t u = Reply st rows \<longrightarrow>
             (\<forall>r \<in> set rows. r \<noteq> [] \<longrightarrow> cell_text (r ! 0) \<in> name ` set (get_list (xml_info_list g)))"
    and run: "main_xml e d w = (res, w')"
  shows "filter is_FileGet (requests w') = filter is_FileGet (requests w)
         \<and> (\<forall>new. res = Inr new \<longrightarrow> (\<forall>g \<in> set new. xml_info_list g = Some []))
         \<and> map (\<lambda>g. get_list (xml_info_list g)) (store w')
             = map (\<lambda>g. get_list (xml_info_list g)) (store w)"
proof -
  from main_xml_cases[OF run] show ?thesis
  proof
    assume "\<exists>err. process_groups e d (store w) w = (Inl err, w') \<and> res = Inl err"
    then obtain err where pgs: "process_groups e d (store w) w = (Inl err, w')"
      and res: "res = Inl err" by blast
    have "store w' = store w" using process_groups_store[OF pgs] .
    then show ?thesis using process_groups_known[OF known pgs] res by simp
  next
    assume "\<exists>nl up w1. process_groups e d (store w) w = (Inr (nl, up), w1) \<and> store w' = up
             \<and> files w' = files w1 \<and> requests w' = requests w1
             \<and> (res = Inr nl \<or> res = Inl KeyError)"
    then obtain nl up w1 where
      pgs: "process_groups e d (store w) w = (Inr (nl, up), w1)" and st: "store w' = up"
      and rq: "requests w' = requests w1" and res: "res = Inr nl \<or> res = Inl KeyError"
      by blast
    show ?thesis using process_groups_known[OF known pgs] st rq res by auto
  qed
qed

theorem rerun_xml_all_known_witness:
  "filter is_FileGet (requests (snd (main_xml
       (sample_env [sample_row ''Pleno 1'' ''/xml?f=p1.xml''] 200 no_feed) ''out''
       (sample_world [sample_group [\<lparr>name = ''Pleno 1'', xml_filepath = ''out/XII/p1.xml'',
                                     xml_url = ''https://www.legebiltzarra.eus/xml?f=p1.xml''\<rparr>]])))) = []
   \<and> fst (main_xml
       (sample_env [sample_row ''Pleno 1'' ''/xml?f=p1.xml''] 200 no_feed) ''out''
       (sample_world [sample_group [\<lparr>name = ''Pleno 1'', xml_filepath = ''out/XII/p1.xml'',
                                     xml_url = ''https://www.legebiltzarra.eus/xml?f=p1.xml''\<rparr>]]))
     = Inr [sample_group []]"
proof -
  let ?e = "sample_env [sample_row ''Pleno 1'' ''/xml?f=p1.xml''] 200 no_feed"
  let ?w = "sample_world [sample_group [\<lparr>name = ''Pleno 1'', xml_filepath = ''out/XII/p1.xml'',
                                     xml_url = ''https://www.legebiltzarra.eus/xml?f=p1.xml''\<rparr>]]"
  have run: "main_xml ?e ''out'' ?w = (fst (main_xml ?e ''out'' ?w), snd (main_xml ?e ''out'' ?w))"
    by simp
  have known: "\<forall>g \<in> set (store ?w). \<forall>u t st rows.
             html_url g = Some u \<longrightarrow> get_page ?e t u = Reply st rows \<longrightarrow>
             (\<forall>r \<in> set rows. r \<noteq> [] \<longrightarrow> cell_text (r ! 0) \<in> name ` set (get_list (xml_info_list g)))"
    by (auto simp: get_list_def)
  have res: "fst (main_xml ?e ''out'' ?w) = Inr [sample_group []]"
    by code_simp
  show ?thesis
    using rerun_xml_all_known[OF known run] res by simp
qed

subsection \<open>Rejected rows and failed transfers\<close>

lemma download_rows_append:
  "download_rows e b o' known (pre @ rest) acc0 w0 =
     (case download_rows e b o' known pre acc0 w0 of
        (Inl err, w') \<Rightarrow> (Inl err, w')
      | (Inr acc, w') \<Rightarrow> download_rows e b o' known rest acc w')"
proof (induction pre arbitrary: acc0 w0)
  case Nil
  then show ?case by simp
next
  case (Cons r pre)
  obtain x w1 where dx: "download_xml e r b o' known w0 = (x, w1)" by force
  show ?case
  proof (cases x)
    case (Inr info)
    then show ?thesis using dx Cons.IH by simp
  next
    case (Inl err)
    then show ?thesis using dx Cons.IH by (cases err) simp_all
  qed
qed

lemma process_groups_append_abort:
  assumes "process_groups e d gpre w0 = (Inr (nl, up), wg)"
    and "process_group e d g wg = (Inl err, w1)"
  shows "process_groups e d (gpre @ g # gpost) w0 = (Inl err, w1)"
  using assms(1)
proof (induction gpre arbitrary: w0 nl up)
  case Nil
  then show ?case using assms(2) by simp
next
  case (Cons g0 gpre)
  obtain r1 wa where pg: "process_group e d g0 w0 = (r1, wa)" by force
  obtain r2 wb where pgs: "process_groups e d gpre wa = (r2, wb)" by force
  from Cons.prems pg obtain new where r1: "r1 = Inr new"
    by (cases r1) auto
  from Cons.prems pg pgs r1 obtain nl' up' where r2: "r2 = Inr (nl', up')"
    by (cases r2) auto
  have "wb = wg" using Cons.prems pg pgs r1 r2 by simp
  then have "process_groups e d (gpre @ g # gpost) wa = (Inl err, w1)"
    using Cons.IH[of wa nl' up'] pgs r2 by simp
  then show ?case using pg r1 by simp
qed

lemma download_xml_http_error:
  assumes "2 \<le> length r" "cell_text (r ! 0) \<notin> name ` set known" "cell_hrefs (r ! 1) = h # hs"
    and "http_get e (length (requests w)) (if \<not> prefix ''http'' h then b @ h else h)
           = Reply status (Complete content)"
    and "raise_for_status status"
  shows "download_xml e r b o' known w
        = (Inl HTTPError,
           w\<lparr>stdout := stdout w
                 @ [''Downloading '' @ (if \<not> prefix ''http'' h then b @ h else h) @ '' ...''],
              requests := requests w
                 @ [FileGet (if \<not> prefix ''http'' h then b @ h else h)]\<rparr>)"
proof -
  have "\<not> length r < 2" "\<not> (\<exists>x \<in> set known. name x = cell_text (r ! 0))"
    using assms(1,2) by force+
  then show ?thesis using assms(3,4,5) by (simp add: download_xml_def Let_def)
qed

text \<open>
  Claim C8. The loop over the rows is at row \<open>r\<close>, with \<open>rows\<close> still to come. A row
  with fewer than two cells, a row whose name is known and a row without a link each
  print their message, and the loop goes on with \<open>rows\<close>; nothing else has changed.
  When the server answers the request for the row's link with a status from 400 to
  599, the loop ends with HTTPError right after that request. And that ends the whole
  run: let the groups before \<open>g\<close> have been processed, let the index page of \<open>g\<close> have
  the rows \<open>pre\<close>, \<open>r\<close>, \<open>post\<close>, and let the loop have come through \<open>pre\<close>; when the
  request for the link of \<open>r\<close> is answered with such a status, \<open>main\<close> ends with
  HTTPError in the world right after that request, so that no row of \<open>post\<close> and no
  later group is looked at, and the store is not written.
\<close>

theorem row_rejections_continue_http_failure_aborts:
  "(length r < 2 \<longrightarrow>
      download_rows e b o' known (r # rows) acc w
        = download_rows e b o' known rows acc
            (w\<lparr>stdout := stdout w @ [''Caught exception: Skipping Malformed rows'']\<rparr>))
   \<and> (2 \<le> length r \<and> cell_text (r ! 0) \<in> name ` set known \<longrightarrow>
      download_rows e b o' known (r # rows) acc w
        = download_rows e b o' known rows acc
            (w\<lparr>stdout := stdout w @ [''Caught exception: File already downloaded ''
                 @ quoted ''name'' @ '': '' @ quoted (cell_text (r ! 0))]\<rparr>))
   \<and> (2 \<le> length r \<and> cell_text (r ! 0) \<notin> name ` set known \<and> cell_hrefs (r ! 1) = [] \<longrightarrow>
      download_rows e b o' known (r # rows) acc w
        = download_rows e b o' known rows acc
            (w\<lparr>stdout := stdout w @ [''Caught exception: '' @ quoted ''a_tag'' @ '' not found'']\<rparr>))
   \<and> (2 \<le> length r \<and> cell_text (r ! 0) \<notin> name ` set known \<and> cell_hrefs (r ! 1) = h # hs
       \<and> http_get e (length (requests w)) (if \<not> prefix ''http'' h then b @ h else h)
           = Reply status (Complete content)
       \<and> raise_for_status status \<longrightarrow>
      download_rows e b o' known (r # rows) acc w
        = (Inl HTTPError,
           w\<lparr>stdout := stdout w
                 @ [''Downloading '' @ (if \<not> prefix ''http'' h then b @ h else h) @ '' ...''],
              requests := requests w
                 @ [FileGet (if \<not> prefix ''http'' h then b @ h else h)]\<rparr>))
   \<and> (store w0 = gpre @ g # gpost
       \<and> process_groups e d gpre w0 = (Inr (nl, up), wg)
       \<and> makedirs e (d @ ''/'' @ py_str (metadata_name g)) wg = (None, w1)
       \<and> html_url g = Some u
       \<and> get_page e (length (requests w1)) u = Reply st (pre @ r # post)
       \<and> \<not> raise_for_status st
       \<and> 3 \<le> length (split_on CHR ''/'' u)
       \<and> b = ''https://'' @ split_on CHR ''/'' u ! 2
       \<and> o' = d @ ''/'' @ py_str (metadata_name g)
       \<and> known = get_list (xml_info_list g)
       \<and> download_rows e b o' known pre [] (w1\<lparr>requests := requests w1 @ [PageGet u]\<rparr>)
           = (Inr acc, w)
       \<and> 2 \<le> length r \<and> cell_text (r ! 0) \<notin> name ` set known \<and> cell_hrefs (r ! 1) = h # hs
       \<and> http_get e (length (requests w)) (if \<not> prefix ''http'' h then b @ h else h)
           = Reply status (Complete content)
       \<and> raise_for_status status \<longrightarrow>
      main_xml e d w0
        = (Inl HTTPError,
           w\<lparr>stdout := stdout w
                 @ [''Downloading '' @ (if \<not> prefix ''http'' h then b @ h else h) @ '' ...''],
              requests := requests w
                 @ [FileGet (if \<not> prefix ''http'' h then b @ h else h)]\<rparr>)
      \<and> store w = store w0)"
proof (intro conjI impI)
  assume "length r < 2"
  then show "download_rows e b o' known (r # rows) acc w
        = download_rows e b o' known rows acc
            (w\<lparr>stdout := stdout w @ [''Caught exception: Skipping Malformed rows'']\<rparr>)"
    by (simp add: download_xml_def)
next
  assume "2 \<le> length r \<and> cell_text (r ! 0) \<in> name ` set known"
  then have "\<not> length r < 2" "\<exists>x \<in> set known. name x = cell_text (r ! 0)" by auto
  then show "download_rows e b o' known (r # rows) acc w
        = download_rows e b o' known rows acc
            (w\<lparr>stdout := stdout w @ [''Caught exception: File already downloaded ''
                 @ quoted ''name'' @ '': '' @ quoted (cell_text (r ! 0))]\<rparr>)"
    by (simp add: download_xml_def)
next
  assume "2 \<le> length r \<and> cell_text (r ! 0) \<notin> name ` set known \<and> cell_hrefs (r ! 1) = []"
  then have "\<not> length r < 2" "\<not> (\<exists>x \<in> set known. name x = cell_text (r ! 0))"
      "cell_hrefs (r ! 1) = []" by force+
  then show "download_rows e b o' known (r # rows) acc w
        = download_rows e b o' known rows acc
            (w\<lparr>stdout := stdout w @ [''Caught exception: '' @ quoted ''a_tag'' @ '' not found'']\<rparr>)"
    by (simp add: download_xml_def)
next
  assume a: "2 \<le> length r \<and> cell_text (r ! 0) \<notin> name ` set known \<and> cell_hrefs (r ! 1) = h # hs
       \<and> http_get e (length (requests w)) (if \<not> prefix ''http'' h then b @ h else h)
           = Reply status (Complete content)
       \<and> raise_for_status status"
  have "download_xml e r b o' known w
        = (Inl HTTPError,
           w\<lparr>stdout := stdout w
                 @ [''Downloading '' @ (if \<not> prefix ''http'' h then b @ h else h) @ '' ...''],
              requests := requests w
                 @ [FileGet (if \<not> prefix ''http'' h then b @ h else h)]\<rparr>)"
    using a download_xml_http_error[of r known h hs e w b status content o'] by blast
  then show "download_rows e b o' known (r # rows) acc w
        = (Inl HTTPError,
           w\<lparr>stdout := stdout w
                 @ [''Downloading '' @ (if \<not> prefix ''http'' h then b @ h else h) @ '' ...''],
              requests := requests w
                 @ [FileGet (if \<not> prefix ''http'' h then b @ h else h)]\<rparr>)"
    by simp
next
  assume a: "store w0 = gpre @ g # gpost
       \<and> process_groups e d gpre w0 = (Inr (nl, up), wg)
       \<and> makedirs e (d @ ''/'' @ py_str (metadata_name g)) wg = (None, w1)
       \<and> html_url g = Some u
       \<and> get_page e (length (requests w1)) u = Reply st (pre @ r # post)
       \<and> \<not> raise_for_status st
       \<and> 3 \<le> length (split_on CHR ''/'' u)
       \<and> b = ''https://'' @ split_on CHR ''/'' u ! 2
       \<and> o' = d @ ''/'' @ py_str (metadata_name g)
       \<and> known = get_list (xml_info_list g)
       \<and> download_rows e b o' known pre [] (w1\<lparr>requests := requests w1 @ [PageGet u]\<rparr>)
           = (Inr acc, w)
       \<and> 2 \<le> length r \<and> cell_text (r ! 0) \<notin> name ` set known \<and> cell_hrefs (r ! 1) = h # hs
       \<and> http_get e (length (requests w)) (if \<not> prefix ''http'' h then b @ h else h)
           = Reply status (Complete content)
       \<and> raise_for_status status"
  let ?wend = "w\<lparr>stdout := stdout w
                 @ [''Downloading '' @ (if \<not> prefix ''http'' h then b @ h else h) @ '' ...''],
              requests := requests w
                 @ [FileGet (if \<not> prefix ''http'' h then b @ h else h)]\<rparr>"
  from a have groups: "store w0 = gpre @ g # gpost"
    and before: "process_groups e d gpre w0 = (Inr (nl, up), wg)"
    and mk: "makedirs e (d @ ''/'' @ py_str (metadata_name g)) wg = (None, w1)"
    and url: "html_url g = Some u"
    and page: "get_page e (length (requests w1)) u = Reply st (pre @ r # post)"
    and ok: "\<not> raise_for_status st" "3 \<le> length (split_on CHR ''/'' u)"
    and b: "b = ''https://'' @ split_on CHR ''/'' u ! 2"
    and o': "o' = d @ ''/'' @ py_str (metadata_name g)"
    and known: "known = get_list (xml_info_list g)"
    and pre: "download_rows e b o' known pre [] (w1\<lparr>requests := requests w1 @ [PageGet u]\<rparr>)
           = (Inr acc, w)"
    by blast+
  have dx: "download_xml e r b o' known w = (Inl HTTPError, ?wend)"
    using a download_xml_http_error[of r known h hs e w b status content o'] by blast
  have rows: "download_rows e b o' known (pre @ r # post) []
                (w1\<lparr>requests := requests w1 @ [PageGet u]\<rparr>) = (Inl HTTPError, ?wend)"
    by (simp add: download_rows_append pre dx)
  have "process_group e d g wg
          = download_rows e (''https://'' @ split_on CHR ''/'' u ! 2)
              (d @ ''/'' @ py_str (metadata_name g)) (get_list (xml_info_list g))
              (pre @ r # post) [] (w1\<lparr>requests := requests w1 @ [PageGet u]\<rparr>)"
    using mk url page ok by (simp add: process_group_def Let_def)
  then have pg: "process_group e d g wg = (Inl HTTPError, ?wend)"
    using rows unfolding b o' known by simp
  have pgs: "process_groups e d (store w0) w0 = (Inl HTTPError, ?wend)"
    using process_groups_append_abort[OF before pg] groups by simp
  then show "main_xml e d w0 = (Inl HTTPError, ?wend)"
    by (simp add: main_xml_def)
  have "store ?wend = store w0" using process_groups_store[OF pgs] .
  then show "store w = store w0" by simp
qed

theorem row_rejections_continue_http_failure_aborts_witness:
  "download_rows (sample_env [] 404 no_feed) ''https://www.legebiltzarra.eus'' ''out/XII''
       [sample_info ''Pleno 1'' ''p1.xml'']
       [[\<lparr>cell_text = ''Pleno 4'', cell_hrefs = []\<rparr>]] []
       (sample_world [sample_group [sample_info ''Pleno 1'' ''p1.xml'']])
     = (Inr [], (sample_world [sample_group [sample_info ''Pleno 1'' ''p1.xml'']])
                  \<lparr>stdout := [''Caught exception: Skipping Malformed rows'']\<rparr>)
   \<and> fst (download_rows (sample_env [] 404 no_feed) ''https://www.legebiltzarra.eus'' ''out/XII''
       [sample_info ''Pleno 1'' ''p1.xml'']
       [sample_row ''Pleno 1'' ''/xml?f=p1.xml''] []
       (sample_world [sample_group [sample_info ''Pleno 1'' ''p1.xml'']]))
     = Inr []
   \<and> fst (download_rows (sample_env [] 404 no_feed) ''https://www.legebiltzarra.eus'' ''out/XII''
       [sample_info ''Pleno 1'' ''p1.xml'']
       [[\<lparr>cell_text = ''Pleno 3'', cell_hrefs = []\<rparr>, \<lparr>cell_text = [], cell_hrefs = []\<rparr>]] []
       (sample_world [sample_group [sample_info ''Pleno 1'' ''p1.xml'']]))
     = Inr []
   \<and> download_rows (sample_env [] 404 no_feed) ''https://www.legebiltzarra.eus'' ''out/XII''
       [sample_info ''Pleno 1'' ''p1.xml'']
       [sample_row ''Pleno 2'' ''/xml?f=p2.xml'', sample_row ''Pleno 5'' ''/xml?f=p5.xml''] []
       (sample_world [sample_group [sample_info ''Pleno 1'' ''p1.xml'']])
     = (Inl HTTPError,
        (sample_world [sample_group [sample_info ''Pleno 1'' ''p1.xml'']])
          \<lparr>stdout := [''Downloading https://www.legebiltzarra.eus/xml?f=p2.xml ...''],
           requests := [FileGet ''https://www.legebiltzarra.eus/xml?f=p2.xml'']\<rparr>)
   \<and> fst (main_xml
            (sample_env [[\<lparr>cell_text = ''Pleno 4'', cell_hrefs = []\<rparr>],
                         sample_row ''Pleno 2'' ''/xml?f=p2.xml'',
                         sample_row ''Pleno 5'' ''/xml?f=p5.xml''] 404 no_feed) ''out''
            (sample_world [sample_group [sample_info ''Pleno 1'' ''p1.xml''], sample_group []]))
     = Inl HTTPError
   \<and> requests (snd (main_xml
            (sample_env [[\<lparr>cell_text = ''Pleno 4'', cell_hrefs = []\<rparr>],
                         sample_row ''Pleno 2'' ''/xml?f=p2.xml'',
                         sample_row ''Pleno 5'' ''/xml?f=p5.xml''] 404 no_feed) ''out''
            (sample_world [sample_group [sample_info ''Pleno 1'' ''p1.xml''], sample_group []])))
     = [PageGet ''https://www.legebiltzarra.eus/list'',
        FileGet ''https://www.legebiltzarra.eus/xml?f=p2.xml'']
   \<and> store (snd (main_xml
            (sample_env [[\<lparr>cell_text = ''Pleno 4'', cell_hrefs = []\<rparr>],
                         sample_row ''Pleno 2'' ''/xml?f=p2.xml'',
                         sample_row ''Pleno 5'' ''/xml?f=p5.xml''] 404 no_feed) ''out''
            (sample_world [sample_group [sample_info ''Pleno 1'' ''p1.xml''], sample_group []])))
     = [sample_group [sample_info ''Pleno 1'' ''p1.xml''], sample_group []]"
proof -
  let ?e = "sample_env [] 404 no_feed"
  let ?b = "''https://www.legebiltzarra.eus''"
  let ?o = "''out/XII''"
  let ?k = "[sample_info ''Pleno 1'' ''p1.xml'']"
  let ?w = "sample_world [sample_group [sample_info ''Pleno 1'' ''p1.xml'']]"
  let ?mal = "[\<lparr>cell_text = ''Pleno 4'', cell_hrefs = []\<rparr>]"
  let ?e5 = "sample_env [?mal, sample_row ''Pleno 2'' ''/xml?f=p2.xml'',
                         sample_row ''Pleno 5'' ''/xml?f=p5.xml''] 404 no_feed"
  let ?g = "sample_group [sample_info ''Pleno 1'' ''p1.xml'']"
  let ?w5 = "sample_world [?g, sample_group []]"
  let ?u = "''https://www.legebiltzarra.eus/list''"
  have c1: "download_rows ?e ?b ?o ?k [?mal] [] ?w
              = (Inr [], ?w\<lparr>stdout := [''Caught exception: Skipping Malformed rows'']\<rparr>)"
    using row_rejections_continue_http_failure_aborts
            [where r = ?mal and e = ?e and b = ?b
               and o' = ?o and known = ?k and rows = "[]" and acc = "[]" and w = ?w]
    by simp
  have c2: "fst (download_rows ?e ?b ?o ?k [sample_row ''Pleno 1'' ''/xml?f=p1.xml''] [] ?w) = Inr []"
    using row_rejections_continue_http_failure_aborts
            [where r = "sample_row ''Pleno 1'' ''/xml?f=p1.xml''" and e = ?e and b = ?b
               and o' = ?o and known = ?k and rows = "[]" and acc = "[]" and w = ?w]
    by simp
  have c3: "fst (download_rows ?e ?b ?o ?k
              [[\<lparr>cell_text = ''Pleno 3'', cell_hrefs = []\<rparr>, \<lparr>cell_text = [], cell_hrefs = []\<rparr>]] [] ?w)
            = Inr []"
    using row_rejections_continue_http_failure_aborts
            [where r = "[\<lparr>cell_text = ''Pleno 3'', cell_hrefs = []\<rparr>, \<lparr>cell_text = [], cell_hrefs = []\<rparr>]"
               and e = ?e and b = ?b
               and o' = ?o and known = ?k and rows = "[]" and acc = "[]" and w = ?w]
    by simp
  have st: "raise_for_status 404" "\<not> raise_for_status 200"
    by (simp_all add: raise_for_status_def)
  have c4: "download_rows ?e ?b ?o ?k
              [sample_row ''Pleno 2'' ''/xml?f=p2.xml'', sample_row ''Pleno 5'' ''/xml?f=p5.xml''] [] ?w
            = (Inl HTTPError,
               ?w\<lparr>stdout := [''Downloading https://www.legebiltzarra.eus/xml?f=p2.xml ...''],
                  requests := [FileGet ''https://www.legebiltzarra.eus/xml?f=p2.xml'']\<rparr>)"
    using row_rejections_continue_http_failure_aborts
            [where r = "sample_row ''Pleno 2'' ''/xml?f=p2.xml''" and e = ?e and b = ?b
               and o' = ?o and known = ?k
               and rows = "[sample_row ''Pleno 5'' ''/xml?f=p5.xml'']" and acc = "[]" and w = ?w
               and h = "''/xml?f=p2.xml''" and hs = "[]" and status = 404
               and content = "''payload''"] st
    by simp
  let ?w1 = "snd (makedirs ?e5 ''out/XII'' ?w5)"
  let ?w2 = "?w1\<lparr>requests := requests ?w1 @ [PageGet ?u]\<rparr>"
  let ?wr = "snd (download_rows ?e5 ?b ?o ?k [?mal] [] ?w2)"
  have mk: "makedirs ?e5 (''out'' @ ''/'' @ py_str (metadata_name ?g)) ?w5 = (None, ?w1)"
  proof -
    have "fst (makedirs ?e5 ''out/XII'' ?w5) = None" by code_simp
    then show ?thesis by (simp add: prod_eq_iff py_str_def)
  qed
  have base: "3 \<le> length (split_on CHR ''/'' ?u)"
    "?b = ''https://'' @ split_on CHR ''/'' ?u ! 2"
    by code_simp+
  have pre: "download_rows ?e5 ?b ?o ?k [?mal] [] ?w2 = (Inr [], ?wr)"
  proof -
    have "fst (download_rows ?e5 ?b ?o ?k [?mal] [] ?w2) = Inr []"
      by (simp add: download_xml_def)
    then show ?thesis by (simp add: prod_eq_iff)
  qed
  have rq: "requests ?wr = [PageGet ?u]"
    by code_simp
  have grp: "store ?w5 = [] @ ?g # [sample_group []]" by simp
  have before: "process_groups ?e5 ''out'' [] ?w5 = (Inr ([], []), ?w5)" by simp
  have url: "html_url ?g = Some ?u" by simp
  have page: "get_page ?e5 (length (requests ?w1)) ?u
                = Reply 200 ([?mal] @ sample_row ''Pleno 2'' ''/xml?f=p2.xml''
                               # [sample_row ''Pleno 5'' ''/xml?f=p5.xml''])"
    by simp
  have o: "?o = ''out'' @ ''/'' @ py_str (metadata_name ?g)" by (simp add: py_str_def)
  have k: "?k = get_list (xml_info_list ?g)" by (simp add: get_list_def)
  have row: "2 \<le> length (sample_row ''Pleno 2'' ''/xml?f=p2.xml'')"
    "cell_text (sample_row ''Pleno 2'' ''/xml?f=p2.xml'' ! 0) \<notin> name ` set ?k"
    "cell_hrefs (sample_row ''Pleno 2'' ''/xml?f=p2.xml'' ! 1) = ''/xml?f=p2.xml'' # []"
    by simp_all
  have get: "http_get ?e5 (length (requests ?wr))
               (if \<not> prefix ''http'' ''/xml?f=p2.xml''
                then ?b @ ''/xml?f=p2.xml'' else ''/xml?f=p2.xml'')
             = Reply 404 (Complete ''payload'')"
    by (simp only: env.simps)
  note abort = row_rejections_continue_http_failure_aborts
            [where ?w0.0 = ?w5 and gpre = "[]" and g = ?g and gpost = "[sample_group []]"
               and e = ?e5 and d = "''out''" and nl = "[]" and up = "[]" and wg = ?w5
               and ?w1.0 = ?w1 and u = ?u and st = 200 and pre = "[?mal]"
               and r = "sample_row ''Pleno 2'' ''/xml?f=p2.xml''"
               and post = "[sample_row ''Pleno 5'' ''/xml?f=p5.xml'']"
               and b = ?b and o' = ?o and known = ?k and acc = "[]" and w = ?wr
               and h = "''/xml?f=p2.xml''" and hs = "[]" and status = 404
               and content = "''payload''",
             THEN conjunct2, THEN conjunct2, THEN conjunct2, THEN conjunct2, THEN mp]
  have c5: "main_xml ?e5 ''out'' ?w5
        = (Inl HTTPError,
           ?wr\<lparr>stdout := stdout ?wr
                 @ [''Downloading '' @ (if \<not> prefix ''http'' ''/xml?f=p2.xml''
                                        then ?b @ ''/xml?f=p2.xml'' else ''/xml?f=p2.xml'') @ '' ...''],
              requests := requests ?wr
                 @ [FileGet (if \<not> prefix ''http'' ''/xml?f=p2.xml''
                              then ?b @ ''/xml?f=p2.xml'' else ''/xml?f=p2.xml'')]\<rparr>)
      \<and> store ?wr = store ?w5"
    by (rule abort) (intro conjI grp before mk url page st base o k pre row get)
  have r5: "fst (main_xml ?e5 ''out'' ?w5) = Inl HTTPError"
    using c5 by (simp only: fst_conv)
  have q5: "requests (snd (main_xml ?e5 ''out'' ?w5))
              = [PageGet ?u, FileGet ''https://www.legebiltzarra.eus/xml?f=p2.xml'']"
    using c5 rq by (simp only: snd_conv) simp
  have s5: "store (snd (main_xml ?e5 ''out'' ?w5)) = [?g, sample_group []]"
    using c5 by (simp only: snd_conv) simp
  show ?thesis using c1 c2 c3 c4 r5 q5 s5 by (intro conjI)
qed

section \<open>Properties of the podcast downloader\<close>

subsection \<open>What a run leaves as it was\<close>

lemma download_file_exists: "exists w p \<Longrightarrow> download_file e u p w = (None, w)"
  by (simp add: download_file_def)

lemma download_file_True:
  "download_file e u p w = (Some True, w') \<Longrightarrow> \<not> exists w p"
  by (auto simp: download_file_def split: if_splits)

lemma write_file_frame:
  "write_file e p c w = Inr w' \<Longrightarrow>
     files w' = (files w)(p \<mapsto> File c) \<and> requests w' = requests w \<and> store w' = store w"
  by (auto simp: write_file_def split: if_splits)

lemma download_file_frame:
  assumes "download_file e u p w = (r, w')"
  shows "(\<forall>q n. files w q = Some n \<longrightarrow> files w' q = Some n) \<and> store w' = store w
         \<and> (r = None \<longrightarrow> w' = w)"
proof (cases "exists w p")
  case True
  then show ?thesis using assms by (simp add: download_file_def)
next
  case False
  then have none: "files w p = None" by (simp add: exists_def)
  let ?w1 = "w\<lparr>requests := requests w @ [FileGet u]\<rparr>"
  have wf: "\<And>c w2. write_file e p c ?w1 = Inr w2 \<Longrightarrow>
              (\<forall>q n. files w q = Some n \<longrightarrow> files w2 q = Some n) \<and> store w2 = store w"
    using none by (auto dest!: write_file_frame)
  show ?thesis
    using assms False wf
    by (auto simp: download_file_def Let_def
             split: reply.splits body.splits sum.splits if_splits)
qed

lemma mkdir_all_frame:
  "mkdir_all e ds fs = (r, fs') \<Longrightarrow> fs q = Some n \<Longrightarrow> fs' q = Some n"
proof (induction ds arbitrary: fs)
  case Nil
  then show ?case by simp
next
  case (Cons d ds)
  show ?case
  proof (cases "fs d")
    case None
    then have qd: "(fs(d \<mapsto> Dir)) q = Some n" using Cons.prems(2) by auto
    show ?thesis
    proof (cases "can_mkdir e d")
      case True
      then have "mkdir_all e ds (fs(d \<mapsto> Dir)) = (r, fs')"
        using Cons.prems(1) None by simp
      then show ?thesis using qd by (rule Cons.IH)
    next
      case False
      then show ?thesis using Cons.prems None by simp
    qed
  next
    case (Some nd)
    then show ?thesis using Cons.prems Cons.IH[of fs]
      by (cases nd) auto
  qed
qed

lemma makedirs_frame:
  assumes "makedirs e p w = (r, w')"
  shows "(\<forall>q n. files w q = Some n \<longrightarrow> files w' q = Some n)
         \<and> store w' = store w \<and> requests w' = requests w"
  using assms mkdir_all_frame
  by (fastforce simp: makedirs_def split: if_splits prod.splits)

lemma process_entry_frame:
  assumes "process_entry e ids base en w = (r, w')"
  shows "(\<forall>q n. files w q = Some n \<longrightarrow> files w' q = Some n) \<and> store w' = store w"
proof -
  have df: "\<And>u p r w'. download_file e u p w = (r, w') \<Longrightarrow>
              (\<forall>q n. files w q = Some n \<longrightarrow> files w' q = Some n) \<and> store w' = store w"
    using download_file_frame by blast
  show ?thesis
    using assms
    unfolding process_entry_def
    by (auto split: option.splits list.splits if_splits prod.splits bool.splits dest!: df)
qed

lemma process_entry_new:
  assumes "process_entry e ids base en w = (Inr added, w')"
  shows "\<forall>a \<in> set added. \<not> exists w (audio_filepath a)"
  using assms
  unfolding process_entry_def
  by (auto split: option.splits list.splits if_splits prod.splits bool.splits
           dest!: download_file_True)

lemma exists_mono:
  "\<forall>q n. files w q = Some n \<longrightarrow> files w' q = Some n \<Longrightarrow> exists w p \<Longrightarrow> exists w' p"
  by (auto simp: exists_def)

lemma process_entries_frame:
  "process_entries e ids base ens acc w = (r, w') \<Longrightarrow>
     (\<forall>q n. files w q = Some n \<longrightarrow> files w' q = Some n) \<and> store w' = store w"
proof (induction ens arbitrary: acc w)
  case Nil
  then show ?case by simp
next
  case (Cons en ens)
  obtain r1 w1 where pe: "process_entry e ids base en w = (r1, w1)" by force
  note f1 = process_entry_frame[OF pe]
  show ?case
  proof (cases r1)
    case (Inl err)
    then show ?thesis using Cons.prems pe f1 by simp
  next
    case (Inr added)
    then have "process_entries e ids base ens (acc @ added) w1 = (r, w')"
      using Cons.prems pe by simp
    from Cons.IH[OF this] f1 show ?thesis by simp
  qed
qed

lemma process_entries_new:
  "process_entries e ids base ens acc w = (Inr res, w') \<Longrightarrow>
     \<exists>added. res = acc @ added \<and> (\<forall>a \<in> set added. \<not> exists w (audio_filepath a))"
proof (induction ens arbitrary: acc w)
  case Nil
  then show ?case by simp
next
  case (Cons en ens)
  obtain r1 w1 where pe: "process_entry e ids base en w = (r1, w1)" by force
  from Cons.prems pe obtain added1 where r1: "r1 = Inr added1"
    by (cases r1) auto
  have run: "process_entries e ids base ens (acc @ added1) w1 = (Inr res, w')"
    using Cons.prems pe r1 by simp
  from Cons.IH[OF run] obtain added2 where
    res: "res = (acc @ added1) @ added2" and
    new2: "\<forall>a \<in> set added2. \<not> exists w1 (audio_filepath a)"
    by blast
  have new1: "\<forall>a \<in> set added1. \<not> exists w (audio_filepath a)"
    using process_entry_new pe r1 by blast
  have mono: "\<forall>q n. files w q = Some n \<longrightarrow> files w1 q = Some n"
    using process_entry_frame[OF pe] by simp
  have "\<forall>a \<in> set added2. \<not> exists w (audio_filepath a)"
    using new2 exists_mono[OF mono] by blast
  then have "res = acc @ (added1 @ added2) \<and>
             (\<forall>a \<in> set (added1 @ added2). \<not> exists w (audio_filepath a))"
    using res new1 by auto
  then show ?case by blast
qed

lemma process_feed_frame:
  assumes "process_feed e fd d w = (r, w')"
  shows "(\<forall>q n. files w q = Some n \<longrightarrow> files w' q = Some n) \<and> store w' = store w"
proof (cases "source fd = None \<or> feed_name fd = None \<or> rss_url fd = None")
  case True
  then show ?thesis using assms
    by (auto simp: process_feed_def split: option.splits)
next
  case False
  then obtain src nm rss where f: "source fd = Some src" "feed_name fd = Some nm" "rss_url fd = Some rss"
    by auto
  let ?w1 = "w\<lparr>requests := requests w @ [FeedGet rss]\<rparr>"
  obtain r2 w2 where mk: "makedirs e (path_join d [src, nm]) ?w1 = (r2, w2)" by force
  have m: "(\<forall>q n. files w q = Some n \<longrightarrow> files w2 q = Some n) \<and> store w2 = store w"
    using makedirs_frame[OF mk] by simp
  show ?thesis
  proof (cases "bozo (feedparser_parse e (length (requests w)) rss)")
    case True
    then show ?thesis using assms f by (auto simp: process_feed_def Let_def)
  next
    case nb: False
    show ?thesis
    proof (cases r2)
      case (Some err)
      then show ?thesis using assms f nb mk m by (auto simp: process_feed_def Let_def)
    next
      case None
      let ?ids = "case audio_list fd of None \<Rightarrow> None
                  | Some al \<Rightarrow> if al = [] then None else Some (map audio_id al)"
      have "process_entries e ?ids (path_join d [src, nm])
              (entries (feedparser_parse e (length (requests w)) rss)) [] w2 = (r, w')"
        using assms f nb mk None by (simp add: process_feed_def Let_def)
      from process_entries_frame[OF this] m show ?thesis by simp
    qed
  qed
qed

lemma process_feed_new:
  assumes "process_feed e fd d w = (Inr new, w')"
  shows "\<forall>a \<in> set new. \<not> exists w (audio_filepath a)"
proof -
  from assms obtain src nm rss where f: "source fd = Some src" "feed_name fd = Some nm" "rss_url fd = Some rss"
    by (auto simp: process_feed_def split: option.splits)
  let ?w1 = "w\<lparr>requests := requests w @ [FeedGet rss]\<rparr>"
  obtain r2 w2 where mk: "makedirs e (path_join d [src, nm]) ?w1 = (r2, w2)" by force
  have m: "\<forall>q n. files w q = Some n \<longrightarrow> files w2 q = Some n"
    using makedirs_frame[OF mk] by simp
  let ?ids = "case audio_list fd of None \<Rightarrow> None
                  | Some al \<Rightarrow> if al = [] then None else Some (map audio_id al)"
  have "process_entries e ?ids (path_join d [src, nm])
              (entries (feedparser_parse e (length (requests w)) rss)) [] w2 = (Inr new, w')"
    using assms f mk by (auto simp: process_feed_def Let_def split: if_splits option.splits)
  from process_entries_new[OF this]
  have "\<forall>a \<in> set new. \<not> exists w2 (audio_filepath a)" by simp
  then show ?thesis using exists_mono[OF m] by blast
qed

lemma process_feeds_frame:
  "process_feeds e d fs w = (r, w') \<Longrightarrow>
     (\<forall>q n. files w q = Some n \<longrightarrow> files w' q = Some n) \<and> store w' = store w"
proof (induction fs arbitrary: w r w')
  case Nil
  then show ?case by simp
next
  case (Cons fd fs)
  obtain r1 w1 where pf: "process_feed e fd d w = (r1, w1)" by force
  note f1 = process_feed_frame[OF pf]
  show ?case
  proof (cases r1)
    case (Inl err)
    then show ?thesis using Cons.prems pf f1 by simp
  next
    case (Inr new)
    obtain r2 w2 where pfs: "process_feeds e d fs w1 = (r2, w2)" by force
    note f2 = Cons.IH[OF pfs]
    have "w' = w2" using Cons.prems pf Inr pfs
      by (cases r2) (auto split: prod.splits)
    then show ?thesis using f1 f2 by simp
  qed
qed

lemma process_feeds_shape:
  "process_feeds e d fs w = (Inr (nl, up), w') \<Longrightarrow>
     length nl = length fs \<and>
     up = map2 (\<lambda>f n. f\<lparr>audio_list :=
                  Some (get_list (audio_list n) @ get_list (audio_list f))\<rparr>) fs nl \<and>
     (\<forall>n \<in> set nl. \<forall>a \<in> set (get_list (audio_list n)). \<not> exists w (audio_filepath a))"
proof (induction fs arbitrary: w nl up w')
  case Nil
  then show ?case by simp
next
  case (Cons fd fs)
  obtain r1 w1 where pf: "process_feed e fd d w = (r1, w1)" by force
  obtain r2 w2 where pfs: "process_feeds e d fs w1 = (r2, w2)" by force
  from Cons.prems pf obtain new where r1: "r1 = Inr new"
    by (cases r1) auto
  from Cons.prems pf pfs r1 obtain nl' up' where r2: "r2 = Inr (nl', up')"
    by (cases r2) auto
  have nl: "nl = fd\<lparr>audio_list := Some new\<rparr> # nl'"
    and up: "up = fd\<lparr>audio_list := Some (new @ get_list (audio_list fd))\<rparr> # up'"
    using Cons.prems pf pfs r1 r2 by auto
  have ih: "length nl' = length fs \<and>
     up' = map2 (\<lambda>f n. f\<lparr>audio_list :=
                  Some (get_list (audio_list n) @ get_list (audio_list f))\<rparr>) fs nl' \<and>
     (\<forall>n \<in> set nl'. \<forall>a \<in> set (get_list (audio_list n)). \<not> exists w1 (audio_filepath a))"
    using Cons.IH[of w1 nl' up' w2] pfs r2 by simp
  have new: "\<forall>a \<in> set new. \<not> exists w (audio_filepath a)"
    using process_feed_new pf r1 by blast
  have mono: "\<forall>q n. files w q = Some n \<longrightarrow> files w1 q = Some n"
    using process_feed_frame[OF pf] by simp
  have "\<forall>n \<in> set nl'. \<forall>a \<in> set (get_list (audio_list n)). \<not> exists w (audio_filepath a)"
    using ih exists_mono[OF mono] by blast
  then show ?case using nl up ih new by (simp add: get_list_def)
qed

text \<open>
  How \<open>main\<close> ends: with \<open>only_stats\<close> the world is what it was; otherwise either with
  the exception that left the loop over the feeds, in the world that the loop left, or
  after the loop, and then the store holds the updated feeds and nothing else differs
  from the world that the loop left.
\<close>

lemma main_podcast_cases:
  assumes "main_podcast e d only_stats w = (res, w')"
  shows "(only_stats \<and> w' = w \<and> (res = Inr [] \<or> (\<exists>err. res = Inl err)))
       \<or> (\<not> only_stats \<and> (\<exists>err. process_feeds e d (store w) w = (Inl err, w') \<and> res = Inl err))
       \<or> (\<not> only_stats \<and> (\<exists>nl up w1. process_feeds e d (store w) w = (Inr (nl, up), w1)
               \<and> w' = w1\<lparr>store := up\<rparr> \<and> (res = Inr nl \<or> (\<exists>err. res = Inl err))))"
proof (cases only_stats)
  case True
  then show ?thesis using assms
    by (cases "print_summary (store w)") (auto simp: main_podcast_def)
next
  case False
  obtain r1 w1 where pfs: "process_feeds e d (store w) w = (r1, w1)" by force
  show ?thesis
  proof (cases r1)
    case (Inl err)
    then show ?thesis using assms pfs False by (simp add: main_podcast_def)
  next
    case (Inr p)
    obtain nl up where p: "p = (nl, up)" by (cases p)
    have "w' = w1\<lparr>store := up\<rparr> \<and> (res = Inr nl \<or> (\<exists>err. res = Inl err))"
      using assms pfs False Inr p
      by (cases "print_summary nl"; cases "print_summary up") (auto simp: main_podcast_def)
    then show ?thesis using pfs False Inr p by simp
  qed
qed

lemma main_podcast_frame:
  assumes "main_podcast e d only_stats w = (r, w')"
  shows "\<forall>q n. files w q = Some n \<longrightarrow> files w' q = Some n"
  using main_podcast_cases[OF assms] process_feeds_frame[of e d "store w" w]
  by (elim disjE conjE exE) simp_all

subsection \<open>A feed whose entries are all known\<close>

lemma process_entry_known:
  assumes "entry_id en = Some fid" "py_int (path_tail fid) = Some i"
    and "case ids of None \<Rightarrow> False | Some l \<Rightarrow> i \<in> set l"
  shows "process_entry e ids base en w = (Inr [], w)"
  using assms unfolding process_entry_def
  by (auto split: option.splits list.splits)

lemma process_entries_known:
  assumes "\<forall>en \<in> set ens. \<exists>fid i. entry_id en = Some fid \<and> py_int (path_tail fid) = Some i
             \<and> (case ids of None \<Rightarrow> False | Some l \<Rightarrow> i \<in> set l)"
  shows "process_entries e ids base ens acc w = (Inr acc, w)"
  using assms
proof (induction ens)
  case Nil
  then show ?case by simp
next
  case (Cons en ens)
  then obtain fid i where "entry_id en = Some fid" "py_int (path_tail fid) = Some i"
      "case ids of None \<Rightarrow> False | Some l \<Rightarrow> i \<in> set l"
    by auto
  then have "process_entry e ids base en w = (Inr [], w)"
    by (rule process_entry_known)
  then show ?case using Cons by simp
qed

lemma process_feed_known:
  assumes known: "\<forall>u t. rss_url fd = Some u \<longrightarrow>
        (\<forall>en \<in> set (entries (feedparser_parse e t u)).
           \<exists>fid i. entry_id en = Some fid \<and> py_int (path_tail fid) = Some i
                  \<and> i \<in> audio_id ` set (get_list (audio_list fd)))"
    and run: "process_feed e fd d w = (r, w')"
  shows "filter is_FileGet (requests w') = filter is_FileGet (requests w)
         \<and> (\<forall>new. r = Inr new \<longrightarrow> new = [])"
proof (cases "source fd = None \<or> feed_name fd = None \<or> rss_url fd = None")
  case True
  then show ?thesis using run
    by (auto simp: process_feed_def split: option.splits)
next
  case False
  then obtain src nm rss where f: "source fd = Some src" "feed_name fd = Some nm" "rss_url fd = Some rss"
    by auto
  let ?w1 = "w\<lparr>requests := requests w @ [FeedGet rss]\<rparr>"
  let ?ids = "case audio_list fd of None \<Rightarrow> None
                  | Some al \<Rightarrow> if al = [] then None else Some (map audio_id al)"
  let ?ens = "entries (feedparser_parse e (length (requests w)) rss)"
  obtain r2 w2 where mk: "makedirs e (path_join d [src, nm]) ?w1 = (r2, w2)" by force
  have m: "requests w2 = requests ?w1"
    using makedirs_frame[OF mk] by simp
  have ids: "\<And>i. i \<in> audio_id ` set (get_list (audio_list fd)) \<Longrightarrow>
               (case ?ids of None \<Rightarrow> False | Some l \<Rightarrow> i \<in> set l)"
    by (cases "audio_list fd") (auto simp: get_list_def)
  have "\<forall>en \<in> set ?ens. \<exists>fid i. entry_id en = Some fid \<and> py_int (path_tail fid) = Some i
             \<and> (case ?ids of None \<Rightarrow> False | Some l \<Rightarrow> i \<in> set l)"
    using known f(3) ids by blast
  then have pe: "process_entries e ?ids (path_join d [src, nm]) ?ens [] w2 = (Inr [], w2)"
    by (rule process_entries_known)
  show ?thesis
  proof (cases "bozo (feedparser_parse e (length (requests w)) rss)")
    case True
    then show ?thesis using run f by (auto simp: process_feed_def Let_def)
  next
    case nb: False
    show ?thesis
    proof (cases r2)
      case (Some err)
      then show ?thesis using run f nb mk m by (auto simp: process_feed_def Let_def)
    next
      case None
      have "r = Inr [] \<and> w' = w2"
        using run f nb mk None pe by (simp add: process_feed_def Let_def)
      then show ?thesis using m by simp
    qed
  qed
qed

lemma process_feeds_known:
  assumes "\<forall>fd \<in> set fs. \<forall>u t. rss_url fd = Some u \<longrightarrow>
        (\<forall>en \<in> set (entries (feedparser_parse e t u)).
           \<exists>fid i. entry_id en = Some fid \<and> py_int (path_tail fid) = Some i
                  \<and> i \<in> audio_id ` set (get_list (audio_list fd)))"
    and "process_feeds e d fs w = (res, w')"
  shows "filter is_FileGet (requests w') = filter is_FileGet (requests w)
         \<and> (\<forall>nl up. res = Inr (nl, up) \<longrightarrow>
               (\<forall>fd \<in> set nl. audio_list fd = Some [])
               \<and> map (\<lambda>fd. get_list (audio_list fd)) up = map (\<lambda>fd. get_list (audio_list fd)) fs)"
  using assms
proof (induction fs arbitrary: w res w')
  case Nil
  then show ?case by auto
next
  case (Cons fd fs)
  obtain r1 w1 where pf: "process_feed e fd d w = (r1, w1)" by force
  have kf: "\<forall>u t. rss_url fd = Some u \<longrightarrow>
        (\<forall>en \<in> set (entries (feedparser_parse e t u)).
           \<exists>fid i. entry_id en = Some fid \<and> py_int (path_tail fid) = Some i
                  \<and> i \<in> audio_id ` set (get_list (audio_list fd)))"
    using Cons.prems(1) by simp
  have g1: "filter is_FileGet (requests w1) = filter is_FileGet (requests w)"
    and g2: "\<forall>new. r1 = Inr new \<longrightarrow> new = []"
    using process_feed_known[OF kf pf] by auto
  show ?case
  proof (cases r1)
    case (Inl err)
    then show ?thesis using Cons.prems(2) pf g1 by auto
  next
    case (Inr new)
    then have new: "new = []" using g2 by simp
    obtain r2 w2 where pfs: "process_feeds e d fs w1 = (r2, w2)" by force
    have krest: "\<forall>fd \<in> set fs. \<forall>u t. rss_url fd = Some u \<longrightarrow>
        (\<forall>en \<in> set (entries (feedparser_parse e t u)).
           \<exists>fid i. entry_id en = Some fid \<and> py_int (path_tail fid) = Some i
                  \<and> i \<in> audio_id ` set (get_list (audio_list fd)))"
      using Cons.prems(1) by simp
    note ih = Cons.IH[OF krest pfs]
    show ?thesis
    proof (cases r2)
      case (Inl err)
      then show ?thesis using Cons.prems(2) pf Inr pfs ih g1 by auto
    next
      case r2: (Inr p)
      obtain nl up where p: "p = (nl, up)" by (cases p)
      have res: "res = Inr (fd\<lparr>audio_list := Some []\<rparr> # nl,
                     fd\<lparr>audio_list := Some (get_list (audio_list fd))\<rparr> # up)" and w': "w' = w2"
        using Cons.prems(2) pf Inr pfs r2 p new by auto
      show ?thesis using res w' ih r2 p g1 by (simp add: get_list_def)
    qed
  qed
qed

text \<open>
  Claim C5. When, for every feed of the store, every entry of the parsed feed has an
  identifier whose last path component is a number that is the id of one of the feed's
  records, a run of the podcast downloader sends no request for a payload, the list of
  new records of every feed is empty, and each feed's list in the store is what it was.
\<close>

theorem rerun_podcast_all_known:
  assumes known: "\<forall>fd \<in> set (store w). \<forall>u t. rss_url fd = Some u \<longrightarrow>
        (\<forall>en \<in> set (entries (feedparser_parse e t u)).
           \<exists>fid i. entry_id en = Some fid \<and> py_int (path_tail fid) = Some i
                  \<and> i \<in> audio_id ` set (get_list (audio_list fd)))"
    and run: "main_podcast e d only_stats w = (res, w')"
  shows "filter is_FileGet (requests w') = filter is_FileGet (requests w)
         \<and> (\<forall>new. res = Inr new \<longrightarrow> (\<forall>fd \<in> set new. audio_list fd = Some []))
         \<and> map (\<lambda>fd. get_list (audio_list fd)) (store w')
             = map (\<lambda>fd. get_list (audio_list fd)) (store w)"
proof -
  from main_podcast_cases[OF run] consider
    (stats) "only_stats" "w' = w" "res = Inr [] \<or> (\<exists>err. res = Inl err)"
  | (abort) err where "process_feeds e d (store w) w = (Inl err, w')" "res = Inl err"
  | (written) nl up w1 where "process_feeds e d (store w) w = (Inr (nl, up), w1)"
      "w' = w1\<lparr>store := up\<rparr>" "res = Inr nl \<or> (\<exists>err. res = Inl err)"
    by blast
  then show ?thesis
  proof cases
    case stats
    then show ?thesis by auto
  next
    case abort
    have "store w' = store w" using process_feeds_frame[OF abort(1)] by simp
    then show ?thesis using process_feeds_known[OF known abort(1)] abort(2) by simp
  next
    case written
    show ?thesis using process_feeds_known[OF known written(1)] written(2,3) by auto
  qed
qed

theorem rerun_podcast_all_known_witness:
  "filter is_FileGet (requests (snd (main_podcast
       (sample_env [] 200 (sample_feed_of [sample_entry ''https://www.ivoox.com/10'']))
       ''out'' False
       (sample_world [sample_feed [sample_record 10 ''out/ivoox/show/10.mp3'']])))) = []
   \<and> fst (main_podcast
       (sample_env [] 200 (sample_feed_of [sample_entry ''https://www.ivoox.com/10'']))
       ''out'' False
       (sample_world [sample_feed [sample_record 10 ''out/ivoox/show/10.mp3'']]))
     = Inr [sample_feed []]"
proof -
  let ?e = "sample_env [] 200 (sample_feed_of [sample_entry ''https://www.ivoox.com/10''])"
  let ?w = "sample_world [sample_feed [sample_record 10 ''out/ivoox/show/10.mp3'']]"
  have run: "main_podcast ?e ''out'' False ?w
               = (fst (main_podcast ?e ''out'' False ?w), snd (main_podcast ?e ''out'' False ?w))"
    by simp
  have ten: "py_int (path_tail ''https://www.ivoox.com/10'') = Some 10"
    by code_simp
  have known: "\<forall>fd \<in> set (store ?w). \<forall>u t. rss_url fd = Some u \<longrightarrow>
        (\<forall>en \<in> set (entries (feedparser_parse ?e t u)).
           \<exists>fid i. entry_id en = Some fid \<and> py_int (path_tail fid) = Some i
                  \<and> i \<in> audio_id ` set (get_list (audio_list fd)))"
    using ten by (simp add: get_list_def)
  have res: "fst (main_podcast ?e ''out'' False ?w) = Inr [sample_feed []]"
    by code_simp
  show ?thesis
    using rerun_podcast_all_known[OF known run] res by simp
qed

subsection \<open>A file that is already on disk\<close>

lemma process_entry_existing:
  assumes "entry_id en = Some fid" "py_int (path_tail fid) = Some i"
    and "exists w (audio_path base en i)"
  shows "process_entry e ids base en w = (Inr [], w)"
  using assms download_file_exists[of w "audio_path base en i" e]
  unfolding process_entry_def
  by (auto split: option.splits list.splits)

text \<open>
  Claim C6. When the target path exists, \<open>download_file\<close> returns at once: no request
  is sent and the world is the same. So an entry whose computed audio path exists
  leaves the world as it was. And whatever a whole run does, a file that was on disk
  before the run has the same bytes after it.
\<close>

theorem existing_file_not_fetched_not_changed:
  "(exists w p \<longrightarrow> download_file e u p w = (None, w))
   \<and> (entry_id en = Some fid \<and> py_int (path_tail fid) = Some i
        \<and> exists w (audio_path base en i)
        \<longrightarrow> process_entry e ids base en w = (Inr [], w))
   \<and> (files w p = Some (File c)
        \<longrightarrow> files (snd (main_podcast e d only_stats w)) p = Some (File c))"
proof -
  have "main_podcast e d only_stats w
          = (fst (main_podcast e d only_stats w), snd (main_podcast e d only_stats w))"
    by simp
  from main_podcast_frame[OF this] show ?thesis
    using download_file_exists process_entry_existing by blast
qed

theorem existing_file_not_fetched_not_changed_witness:
  "download_file (sample_env [] 200 (sample_feed_of [sample_entry ''https://www.ivoox.com/11'']))
       ''https://cdn.example/audio.mp3'' ''out/ivoox/show/11.mp3''
       (world_with_file ''out/ivoox/show/11.mp3'' ''old bytes'' [sample_feed []])
     = (None, world_with_file ''out/ivoox/show/11.mp3'' ''old bytes'' [sample_feed []])
   \<and> process_entry (sample_env [] 200 (sample_feed_of [sample_entry ''https://www.ivoox.com/11'']))
       None ''out/ivoox/show'' (sample_entry ''https://www.ivoox.com/11'')
       (world_with_file ''out/ivoox/show/11.mp3'' ''old bytes'' [sample_feed []])
     = (Inr [], world_with_file ''out/ivoox/show/11.mp3'' ''old bytes'' [sample_feed []])
   \<and> files (snd (main_podcast
         (sample_env [] 200 (sample_feed_of [sample_entry ''https://www.ivoox.com/11'']))
         ''out'' False
         (world_with_file ''out/ivoox/show/11.mp3'' ''old bytes'' [sample_feed []])))
       ''out/ivoox/show/11.mp3''
     = Some (File ''old bytes'')"
proof -
  let ?e = "sample_env [] 200 (sample_feed_of [sample_entry ''https://www.ivoox.com/11''])"
  let ?w = "world_with_file ''out/ivoox/show/11.mp3'' ''old bytes'' [sample_feed []]"
  have ex: "exists ?w ''out/ivoox/show/11.mp3''"
    by (simp add: exists_def)
  have eleven: "py_int (path_tail ''https://www.ivoox.com/11'') = Some 11"
    by code_simp
  have path: "audio_path ''out/ivoox/show'' (sample_entry ''https://www.ivoox.com/11'') 11
                = ''out/ivoox/show/11.mp3''"
    by code_simp
  have fl: "files ?w ''out/ivoox/show/11.mp3'' = Some (File ''old bytes'')"
    by simp
  show ?thesis
    using existing_file_not_fetched_not_changed
            [of ?w "''out/ivoox/show/11.mp3''" ?e "''https://cdn.example/audio.mp3''"
                "sample_entry ''https://www.ivoox.com/11''" "''https://www.ivoox.com/11''" 11
                "''out/ivoox/show''" None "''old bytes''" "''out''" False]
          ex eleven path fl
    by simp
qed

lemma filter_new_old:
  assumes "length nl = length fs"
    and "\<forall>n \<in> set nl. \<forall>a \<in> set (get_list (audio_list n)). audio_filepath a \<noteq> p"
  shows "map (\<lambda>fd. filter (\<lambda>a. audio_filepath a = p) (get_list (audio_list fd)))
           (map2 (\<lambda>f n. f\<lparr>audio_list :=
                  Some (get_list (audio_list n) @ get_list (audio_list f))\<rparr>) fs nl)
         = map (\<lambda>fd. filter (\<lambda>a. audio_filepath a = p) (get_list (audio_list fd))) fs"
  using assms
proof (induction nl fs rule: list_induct2)
  case Nil
  then show ?case by simp
next
  case (Cons n nl f fs)
  have "filter (\<lambda>a. audio_filepath a = p) (get_list (audio_list n)) = []"
    using Cons.prems by (auto simp: filter_empty_conv)
  then show ?case using Cons by (simp add: get_list_def)
qed

lemma main_podcast_existing:
  assumes ex: "exists w p" and run: "main_podcast e d only_stats w = (r, w')"
  shows "exists w' p \<and>
         map (\<lambda>fd. filter (\<lambda>a. audio_filepath a = p) (get_list (audio_list fd))) (store w')
         = map (\<lambda>fd. filter (\<lambda>a. audio_filepath a = p) (get_list (audio_list fd))) (store w)"
proof -
  have ex': "exists w' p"
    using exists_mono[OF main_podcast_frame[OF run] ex] .
  from main_podcast_cases[OF run] consider
    (stats) "w' = w"
  | (abort) err where "process_feeds e d (store w) w = (Inl err, w')"
  | (written) nl up w1 where "process_feeds e d (store w) w = (Inr (nl, up), w1)"
      "w' = w1\<lparr>store := up\<rparr>"
    by blast
  then show ?thesis
  proof cases
    case stats
    then show ?thesis using ex by simp
  next
    case abort
    have "store w' = store w" using process_feeds_frame[OF abort] by simp
    then show ?thesis using ex' by simp
  next
    case written
    have sh: "length nl = length (store w)"
      "up = map2 (\<lambda>f n. f\<lparr>audio_list :=
                Some (get_list (audio_list n) @ get_list (audio_list f))\<rparr>) (store w) nl"
      "\<forall>n \<in> set nl. \<forall>a \<in> set (get_list (audio_list n)). \<not> exists w (audio_filepath a)"
      using process_feeds_shape[OF written(1)] by auto
    have "\<forall>n \<in> set nl. \<forall>a \<in> set (get_list (audio_list n)). audio_filepath a \<noteq> p"
      using sh(3) ex by blast
    from filter_new_old[OF sh(1) this] show ?thesis using ex' written(2) sh(2) by simp
  qed
qed

text \<open>
  Claim C10. When a path exists before a run, \<open>download_file\<close> for that path returns
  None, which is not True. After any number of further runs, with any surroundings
  and arguments, the path still exists and every feed of the store holds, with that
  path as audio file, exactly the records it held before: no record for it is added.
\<close>

theorem existing_file_never_recorded:
  assumes "exists w p"
  shows "fst (download_file e u p w) = None
         \<and> exists (rerun runs w) p
         \<and> map (\<lambda>fd. filter (\<lambda>a. audio_filepath a = p) (get_list (audio_list fd)))
               (store (rerun runs w))
           = map (\<lambda>fd. filter (\<lambda>a. audio_filepath a = p) (get_list (audio_list fd))) (store w)"
proof -
  have "exists (rerun runs w) p
         \<and> map (\<lambda>fd. filter (\<lambda>a. audio_filepath a = p) (get_list (audio_list fd)))
               (store (rerun runs w))
           = map (\<lambda>fd. filter (\<lambda>a. audio_filepath a = p) (get_list (audio_list fd))) (store w)"
    using assms
  proof (induction runs arbitrary: w)
    case Nil
    then show ?case by simp
  next
    case (Cons run runs)
    obtain e' d' os where run: "run = (e', d', os)" by (cases run)
    obtain r w1 where m: "main_podcast e' d' os w = (r, w1)" by force
    note step = main_podcast_existing[OF Cons.prems m]
    from Cons.IH[of w1] step show ?case using run m by simp
  qed
  then show ?thesis using download_file_exists[OF assms] by simp
qed

theorem existing_file_never_recorded_witness:
  "map (\<lambda>fd. filter (\<lambda>a. audio_filepath a = ''out/ivoox/show/11.mp3'') (get_list (audio_list fd)))
     (store (rerun
        [(sample_env [] 200 (sample_feed_of [sample_entry ''https://www.ivoox.com/11'']),
          ''out'', False),
         (sample_env [] 200 (sample_feed_of [sample_entry ''https://www.ivoox.com/11'']),
          ''out'', False)]
        (world_with_file ''out/ivoox/show/11.mp3'' ''old bytes'' [sample_feed []])))
   = [[]]"
proof -
  let ?w = "world_with_file ''out/ivoox/show/11.mp3'' ''old bytes'' [sample_feed []]"
  have ex: "exists ?w ''out/ivoox/show/11.mp3''"
    by (simp add: exists_def)
  show ?thesis
    using existing_file_never_recorded
            [OF ex, where runs = "[(sample_env [] 200 (sample_feed_of [sample_entry ''https://www.ivoox.com/11'']),
          ''out'', False),
         (sample_env [] 200 (sample_feed_of [sample_entry ''https://www.ivoox.com/11'']),
          ''out'', False)]"]
    by (simp add: get_list_def del: rerun.simps)
qed

subsection \<open>A feed descriptor without a required field\<close>





section \<open>What both downloaders write to the store\<close>

text \<open>
  Claim C7, as the code has it. When the loop over the groups (the feeds) ends without
  an exception, the store is written, and it has the groups of the old store in their
  order, each with its other fields as they were and with the list of the records
  that the loop created for it followed by its old list; \<open>main\<close> then returns the new
  records unless a summary raises. When an exception leaves the loop, \<open>main\<close> ends with
  it and the store is what it was, whatever the run has downloaded. A run of the
  podcast script with \<open>only_stats\<close> leaves the store as it was.
\<close>

theorem new_records_prepended:
  "(process_groups e d (store w) w = (Inr (new, updated), w1) \<longrightarrow>
      length new = length (store w)
      \<and> store (snd (main_xml e d w))
          = map2 (\<lambda>g n. g\<lparr>xml_info_list :=
                    Some (get_list (xml_info_list n) @ get_list (xml_info_list g))\<rparr>)
                 (store w) new
      \<and> (fst (main_xml e d w) = Inr new \<or> fst (main_xml e d w) = Inl KeyError))
   \<and> (process_groups e d (store w) w = (Inl err, w1) \<longrightarrow>
      main_xml e d w = (Inl err, w1) \<and> store w1 = store w)
   \<and> (process_feeds e2 d2 (store w2) w2 = (Inr (new2, updated2), w3) \<longrightarrow>
      length new2 = length (store w2)
      \<and> store (snd (main_podcast e2 d2 False w2))
          = map2 (\<lambda>f n. f\<lparr>audio_list :=
                    Some (get_list (audio_list n) @ get_list (audio_list f))\<rparr>)
                 (store w2) new2
      \<and> (fst (main_podcast e2 d2 False w2) = Inr new2
           \<or> (\<exists>err. fst (main_podcast e2 d2 False w2) = Inl err)))
   \<and> (process_feeds e2 d2 (store w2) w2 = (Inl err2, w3) \<longrightarrow>
      main_podcast e2 d2 False w2 = (Inl err2, w3) \<and> store w3 = store w2)
   \<and> store (snd (main_podcast e2 d2 True w2)) = store w2"
proof (intro conjI impI)
  assume pgs: "process_groups e d (store w) w = (Inr (new, updated), w1)"
  obtain res w' where run: "main_xml e d w = (res, w')" by force
  from main_xml_cases[OF run] pgs
  have st: "store w' = updated" and res: "res = Inr new \<or> res = Inl KeyError"
    by auto
  from process_groups_shape[OF pgs]
  show "length new = length (store w)" by simp
  show "store (snd (main_xml e d w))
          = map2 (\<lambda>g n. g\<lparr>xml_info_list :=
                    Some (get_list (xml_info_list n) @ get_list (xml_info_list g))\<rparr>)
                 (store w) new"
    using process_groups_shape[OF pgs] run st by simp
  show "fst (main_xml e d w) = Inr new \<or> fst (main_xml e d w) = Inl KeyError"
    using run res by simp
next
  assume pgs: "process_groups e d (store w) w = (Inl err, w1)"
  then show "main_xml e d w = (Inl err, w1)" by (simp add: main_xml_def)
  show "store w1 = store w" using process_groups_store[OF pgs] .
next
  assume pfs: "process_feeds e2 d2 (store w2) w2 = (Inr (new2, updated2), w3)"
  obtain res w' where run: "main_podcast e2 d2 False w2 = (res, w')" by force
  from main_podcast_cases[OF run] pfs
  have st: "w' = w3\<lparr>store := updated2\<rparr>" and res: "res = Inr new2 \<or> (\<exists>err. res = Inl err)"
    by auto
  from process_feeds_shape[OF pfs]
  show "length new2 = length (store w2)" by simp
  show "store (snd (main_podcast e2 d2 False w2))
          = map2 (\<lambda>f n. f\<lparr>audio_list :=
                    Some (get_list (audio_list n) @ get_list (audio_list f))\<rparr>)
                 (store w2) new2"
    using process_feeds_shape[OF pfs] run st by simp
  show "fst (main_podcast e2 d2 False w2) = Inr new2
           \<or> (\<exists>err. fst (main_podcast e2 d2 False w2) = Inl err)"
    using run res by simp
next
  assume pfs: "process_feeds e2 d2 (store w2) w2 = (Inl err2, w3)"
  then show "main_podcast e2 d2 False w2 = (Inl err2, w3)" by (simp add: main_podcast_def)
  show "store w3 = store w2" using process_feeds_frame[OF pfs] by simp
next
  show "store (snd (main_podcast e2 d2 True w2)) = store w2"
    by (cases "print_summary (store w2)") (simp_all add: main_podcast_def)
qed

theorem new_records_prepended_witness:
  "store (snd (main_xml (sample_env [sample_row ''Pleno 2'' ''/xml?f=p2.xml''] 200 no_feed)
       ''out'' (sample_world [sample_group [sample_info ''Pleno 1'' ''p1.xml'']])))
     = [sample_group [sample_info ''Pleno 2'' ''p2.xml'', sample_info ''Pleno 1'' ''p1.xml'']]
   \<and> fst (main_xml (sample_env [sample_row ''Pleno 2'' ''/xml?f=p2.xml''] 404 no_feed)
       ''out'' (sample_world [sample_group [sample_info ''Pleno 1'' ''p1.xml'']]))
     = Inl HTTPError
   \<and> store (snd (main_xml (sample_env [sample_row ''Pleno 2'' ''/xml?f=p2.xml''] 404 no_feed)
       ''out'' (sample_world [sample_group [sample_info ''Pleno 1'' ''p1.xml'']])))
     = [sample_group [sample_info ''Pleno 1'' ''p1.xml'']]
   \<and> store (snd (main_podcast
       (sample_env [] 200 (sample_feed_of [sample_entry ''https://www.ivoox.com/10'',
                                          sample_entry ''https://www.ivoox.com/11'']))
       ''out'' False
       (sample_world [sample_feed [sample_record 10 ''out/ivoox/show/10.mp3'']])))
     = [sample_feed [sample_record 11 ''out/ivoox/show/11.mp3'',
                     sample_record 10 ''out/ivoox/show/10.mp3'']]
   \<and> fst (main_podcast (sample_env [] 200 \<lparr>bozo = True, entries = []\<rparr>) ''out'' False
       (sample_world [sample_feed [sample_record 10 ''out/ivoox/show/10.mp3'']]))
     = Inl (ValueError ''ERROR parsing feed'')
   \<and> store (snd (main_podcast (sample_env [] 200 \<lparr>bozo = True, entries = []\<rparr>) ''out'' False
       (sample_world [sample_feed [sample_record 10 ''out/ivoox/show/10.mp3'']])))
     = [sample_feed [sample_record 10 ''out/ivoox/show/10.mp3'']]"
proof -
  let ?e = "sample_env [sample_row ''Pleno 2'' ''/xml?f=p2.xml''] 200 no_feed"
  let ?ef = "sample_env [sample_row ''Pleno 2'' ''/xml?f=p2.xml''] 404 no_feed"
  let ?w = "sample_world [sample_group [sample_info ''Pleno 1'' ''p1.xml'']]"
  let ?e2 = "sample_env [] 200 (sample_feed_of [sample_entry ''https://www.ivoox.com/10'',
                                          sample_entry ''https://www.ivoox.com/11''])"
  let ?e2f = "sample_env [] 200 \<lparr>bozo = True, entries = []\<rparr>"
  let ?w2 = "sample_world [sample_feed [sample_record 10 ''out/ivoox/show/10.mp3'']]"
  let ?new = "[sample_group [sample_info ''Pleno 2'' ''p2.xml'']]"
  let ?total = "[sample_group [sample_info ''Pleno 2'' ''p2.xml'', sample_info ''Pleno 1'' ''p1.xml'']]"
  let ?new2 = "[sample_feed [sample_record 11 ''out/ivoox/show/11.mp3'']]"
  let ?total2 = "[sample_feed [sample_record 11 ''out/ivoox/show/11.mp3'',
                     sample_record 10 ''out/ivoox/show/10.mp3'']]"
  have "fst (process_groups ?e ''out'' (store ?w) ?w) = Inr (?new, ?total)"
    by code_simp
  then have h1: "process_groups ?e ''out'' (store ?w) ?w
                   = (Inr (?new, ?total), snd (process_groups ?e ''out'' (store ?w) ?w))"
    by (simp only: prod_eq_iff fst_conv snd_conv simp_thms)
  have "fst (process_groups ?ef ''out'' (store ?w) ?w) = Inl HTTPError"
    by code_simp
  then have h2: "process_groups ?ef ''out'' (store ?w) ?w
                   = (Inl HTTPError, snd (process_groups ?ef ''out'' (store ?w) ?w))"
    by (simp only: prod_eq_iff fst_conv snd_conv simp_thms)
  have "fst (process_feeds ?e2 ''out'' (store ?w2) ?w2) = Inr (?new2, ?total2)"
    by code_simp
  then have h3: "process_feeds ?e2 ''out'' (store ?w2) ?w2
                   = (Inr (?new2, ?total2), snd (process_feeds ?e2 ''out'' (store ?w2) ?w2))"
    by (simp only: prod_eq_iff fst_conv snd_conv simp_thms)
  have "fst (process_feeds ?e2f ''out'' (store ?w2) ?w2) = Inl (ValueError ''ERROR parsing feed'')"
    by code_simp
  then have h4: "process_feeds ?e2f ''out'' (store ?w2) ?w2
                   = (Inl (ValueError ''ERROR parsing feed''),
                      snd (process_feeds ?e2f ''out'' (store ?w2) ?w2))"
    by (simp only: prod_eq_iff fst_conv snd_conv simp_thms)
  have c1: "store (snd (main_xml ?e ''out'' ?w)) = ?total"
    using new_records_prepended
            [where e = ?e and d = "''out''" and w = ?w and new = ?new and updated = ?total
               and ?w1.0 = "snd (process_groups ?e ''out'' (store ?w) ?w)",
             THEN conjunct1, THEN mp, OF h1]
    by (simp add: get_list_def)
  have c2: "main_xml ?ef ''out'' ?w
              = (Inl HTTPError, snd (process_groups ?ef ''out'' (store ?w) ?w))
            \<and> store (snd (process_groups ?ef ''out'' (store ?w) ?w)) = store ?w"
    by (rule new_records_prepended
            [where e = ?ef and d = "''out''" and w = ?w and err = HTTPError
               and ?w1.0 = "snd (process_groups ?ef ''out'' (store ?w) ?w)",
             THEN conjunct2, THEN conjunct1, THEN mp, OF h2])
  have c3: "store (snd (main_podcast ?e2 ''out'' False ?w2)) = ?total2"
    using new_records_prepended
            [where ?e2.0 = ?e2 and ?d2.0 = "''out''" and ?w2.0 = ?w2 and ?new2.0 = ?new2
               and ?updated2.0 = ?total2
               and ?w3.0 = "snd (process_feeds ?e2 ''out'' (store ?w2) ?w2)",
             THEN conjunct2, THEN conjunct2, THEN conjunct1, THEN mp, OF h3]
    by (simp add: get_list_def)
  have c4: "main_podcast ?e2f ''out'' False ?w2
              = (Inl (ValueError ''ERROR parsing feed''),
                 snd (process_feeds ?e2f ''out'' (store ?w2) ?w2))
            \<and> store (snd (process_feeds ?e2f ''out'' (store ?w2) ?w2)) = store ?w2"
    by (rule new_records_prepended
            [where ?e2.0 = ?e2f and ?d2.0 = "''out''" and ?w2.0 = ?w2
               and ?err2.0 = "ValueError ''ERROR parsing feed''"
               and ?w3.0 = "snd (process_feeds ?e2f ''out'' (store ?w2) ?w2)",
             THEN conjunct2, THEN conjunct2, THEN conjunct2, THEN conjunct1, THEN mp, OF h4])
  have r2: "fst (main_xml ?ef ''out'' ?w) = Inl HTTPError"
    and s2: "store (snd (main_xml ?ef ''out'' ?w)) = [sample_group [sample_info ''Pleno 1'' ''p1.xml'']]"
    using c2 by simp_all
  have r4: "fst (main_podcast ?e2f ''out'' False ?w2) = Inl (ValueError ''ERROR parsing feed'')"
    and s4: "store (snd (main_podcast ?e2f ''out'' False ?w2))
               = [sample_feed [sample_record 10 ''out/ivoox/show/10.mp3'']]"
    using c4 by simp_all
  show ?thesis using c1 r2 s2 c3 r4 s4 by (intro conjI)
qed

text \<open>
  Claim C7 as it is written fails for a run that an exception ends. The page has the
  rows \<open>Pleno 2\<close> and \<open>Pleno 3\<close>, and the server answers 200 for the first link and 404
  for the second. \<open>download_xml\<close> returns a record for \<open>Pleno 2\<close>, and its file is on
  disk after the run; the run ends with HTTPError at the second row, the store is not
  written, and the group's list in the store is still empty.
\<close>

theorem aborted_run_counterexample:
  "fst (download_xml
          (sample_env_failing [sample_row ''Pleno 2'' ''/xml?f=p2.xml'',
                               sample_row ''Pleno 3'' ''/xml?f=p3.xml'']
             ''https://www.legebiltzarra.eus/xml?f=p3.xml'')
          (sample_row ''Pleno 2'' ''/xml?f=p2.xml'') ''https://www.legebiltzarra.eus'' ''out/XII'' []
          ((snd (makedirs
                   (sample_env_failing [sample_row ''Pleno 2'' ''/xml?f=p2.xml'',
                                        sample_row ''Pleno 3'' ''/xml?f=p3.xml'']
                      ''https://www.legebiltzarra.eus/xml?f=p3.xml'')
                   ''out/XII'' (sample_world [sample_group []])))
             \<lparr>requests := [PageGet ''https://www.legebiltzarra.eus/list'']\<rparr>))
     = Inr (sample_info ''Pleno 2'' ''p2.xml'')
   \<and> fst (main_xml
          (sample_env_failing [sample_row ''Pleno 2'' ''/xml?f=p2.xml'',
                               sample_row ''Pleno 3'' ''/xml?f=p3.xml'']
             ''https://www.legebiltzarra.eus/xml?f=p3.xml'')
          ''out'' (sample_world [sample_group []]))
     = Inl HTTPError
   \<and> requests (snd (main_xml
          (sample_env_failing [sample_row ''Pleno 2'' ''/xml?f=p2.xml'',
                               sample_row ''Pleno 3'' ''/xml?f=p3.xml'']
             ''https://www.legebiltzarra.eus/xml?f=p3.xml'')
          ''out'' (sample_world [sample_group []])))
     = [PageGet ''https://www.legebiltzarra.eus/list'',
        FileGet ''https://www.legebiltzarra.eus/xml?f=p2.xml'',
        FileGet ''https://www.legebiltzarra.eus/xml?f=p3.xml'']
   \<and> files (snd (main_xml
          (sample_env_failing [sample_row ''Pleno 2'' ''/xml?f=p2.xml'',
                               sample_row ''Pleno 3'' ''/xml?f=p3.xml'']
             ''https://www.legebiltzarra.eus/xml?f=p3.xml'')
          ''out'' (sample_world [sample_group []]))) ''out/XII/p2.xml''
     = Some (File ''payload'')
   \<and> map (\<lambda>g. get_list (xml_info_list g)) (store (snd (main_xml
          (sample_env_failing [sample_row ''Pleno 2'' ''/xml?f=p2.xml'',
                               sample_row ''Pleno 3'' ''/xml?f=p3.xml'']
             ''https://www.legebiltzarra.eus/xml?f=p3.xml'')
          ''out'' (sample_world [sample_group []]))))
     = [[]]"
  by code_simp

end
